theory Spec2Isabelle
  imports Complex_Main "HOL-Library.AList" "HOL-Library.Log_Nat"
begin

section \<open>Python strings\<close>

text \<open>
  Strings are lists of characters. The catalogue and the requests are taken to be ASCII,
  so \<open>length\<close> is Python's \<open>len\<close>, \<open>lower\<close> changes the letters A to Z only, and the
  white space of \<open>str.strip\<close> and \<open>str.split\<close> is the ASCII white space of Python.
\<close>

definition is_space :: "char \<Rightarrow> bool" where
  "is_space c = (c \<in> set [CHR 0x09, CHR 0x0A, CHR 0x0B, CHR 0x0C, CHR 0x0D,
                            CHR 0x1C, CHR 0x1D, CHR 0x1E, CHR 0x1F, CHR '' ''])"

definition strip :: "string \<Rightarrow> string" where
  "strip s = rev (dropWhile is_space (rev (dropWhile is_space s)))"

definition lower_char :: "char \<Rightarrow> char" where
  "lower_char c =
     (case map_of (zip ''ABCDEFGHIJKLMNOPQRSTUVWXYZ'' ''abcdefghijklmnopqrstuvwxyz'') c of
        Some l \<Rightarrow> l
      | None \<Rightarrow> c)"

definition lower :: "string \<Rightarrow> string" where
  "lower s = map lower_char s"

definition replace_char :: "char \<Rightarrow> char \<Rightarrow> string \<Rightarrow> string" where
  "replace_char a b s = map (\<lambda>c. if c = a then b else c) s"

text \<open>\<open>s.split(c)\<close> for a one-character separator: never an empty list.\<close>

fun split_on :: "char \<Rightarrow> string \<Rightarrow> string list" where
  "split_on c [] = [[]]"
| "split_on c (x # xs) =
     (if x = c then [] # split_on c xs
      else (case split_on c xs of
              [] \<Rightarrow> [[x]]
            | w # ws \<Rightarrow> (x # w) # ws))"

text \<open>\<open>s.split()\<close>: the maximal runs of characters that are not white space.\<close>

fun split_ws_acc :: "string \<Rightarrow> string \<Rightarrow> string list" where
  "split_ws_acc w [] = (if w = [] then [] else [rev w])"
| "split_ws_acc w (x # xs) =
     (if is_space x then (if w = [] then split_ws_acc [] xs else rev w # split_ws_acc [] xs)
      else split_ws_acc (x # w) xs)"

definition split_ws :: "string \<Rightarrow> string list" where
  "split_ws s = split_ws_acc [] s"

text \<open>\<open>sub in s\<close> on strings: \<open>sub\<close> occurs in \<open>s\<close> as a contiguous block.\<close>

fun starts_with :: "string \<Rightarrow> string \<Rightarrow> bool" where
  "starts_with [] s = True"
| "starts_with (p # ps) [] = False"
| "starts_with (p # ps) (c # cs) = (p = c \<and> starts_with ps cs)"

fun str_in :: "string \<Rightarrow> string \<Rightarrow> bool" where
  "str_in sub [] = (sub = [])"
| "str_in sub (c # cs) = (starts_with sub (c # cs) \<or> str_in sub cs)"

section \<open>Skill relevance\<close>

text \<open>
  \<open>set([s.strip().lower() for s in x.split(",") if s.strip()])\<close>. A Python set is kept as a
  list without duplicates; the order in which Python walks a set of strings is not fixed,
  and the counts below are shown to depend on the set of tokens only.
\<close>

definition skill_tokens :: "string \<Rightarrow> string list" where
  "skill_tokens x =
     remdups (map (\<lambda>s. lower (strip s)) (filter (\<lambda>s. strip s \<noteq> []) (split_on CHR '','' x)))"

text \<open>
  The inner loop of the partial matching, for one user token: it walks the posting tokens
  and stops at the first one that counts (\<open>break\<close>); the result says whether the user token
  was counted.
\<close>

fun scan_intern_tokens :: "string \<Rightarrow> string list \<Rightarrow> string list \<Rightarrow> bool" where
  "scan_intern_tokens user_skill exact_matches [] = False"
| "scan_intern_tokens user_skill exact_matches (intern_skill # rest) =
     (if length user_skill > 2 \<and> length intern_skill > 2
         \<and> (str_in user_skill intern_skill \<or> str_in intern_skill user_skill)
         \<and> user_skill \<notin> set exact_matches
      then True
      else scan_intern_tokens user_skill exact_matches rest)"

text \<open>The outer loop: \<open>partial_matches += 1\<close> for every user token the inner loop counts.\<close>

fun count_partial :: "string list \<Rightarrow> string list \<Rightarrow> string list \<Rightarrow> nat \<Rightarrow> nat" where
  "count_partial [] exact_matches intern_tokens partial_matches = partial_matches"
| "count_partial (user_skill # rest) exact_matches intern_tokens partial_matches =
     count_partial rest exact_matches intern_tokens
       (if scan_intern_tokens user_skill exact_matches intern_tokens
        then partial_matches + 1 else partial_matches)"

text \<open>
  A float is written as the rational number it stands for. The relevance score is kept as
  the exact quotient. The one decision it enters is the test \<open>> 0.2\<close> of the gate, which
  comes out the same for the float the code computes: an exact match or two partial matches
  admit by themselves, and without them the value is 0 or \<open>0.6 / n\<close>, above 0.2 for one or
  two user tokens and not above it from three on, in floats as in rationals.
\<close>

definition calculate_skill_relevance :: "string \<Rightarrow> string \<Rightarrow> nat \<times> nat \<times> rat" where
  "calculate_skill_relevance user_skills internship_skills =
     (let user_skill_tokens = skill_tokens user_skills;
          intern_skill_tokens = skill_tokens internship_skills
      in if user_skill_tokens = [] \<or> intern_skill_tokens = [] then (0, 0, 0)
         else
           let exact_matches = filter (\<lambda>u. u \<in> set intern_skill_tokens) user_skill_tokens;
               partial_matches = count_partial user_skill_tokens exact_matches intern_skill_tokens 0;
               exact_weight = of_nat (length exact_matches) * (1 :: rat);
               partial_weight = of_nat partial_matches * (6 / 10 :: rat);
               total_user_skills = length user_skill_tokens;
               relevance_score =
                 (if total_user_skills > 0
                  then (exact_weight + partial_weight) / of_nat total_user_skills
                  else 0)
           in (length exact_matches, partial_matches, relevance_score))"

section \<open>Python values, dictionaries and errors\<close>

text \<open>
  The values a posting holds: what JSON gives (null, booleans, numbers, strings, arrays,
  objects) and what the ranking adds (a float score, a dictionary of match details). A
  dictionary is an association list in insertion order, as Python keeps it.
\<close>

datatype pyval =
    PNone
  | PBool bool
  | PInt int
  | PFloat rat
  | PStr string
  | PList "pyval list"
  | PDict "(string \<times> pyval) list"

type_synonym dict = "(string \<times> pyval) list"

text \<open>The exceptions of the source, as values.\<close>

datatype error = AttributeError | TypeError | ValueError | IndexError | ProviderError string

text \<open>\<open>d.get(k)\<close> (\<open>None\<close> when the key is missing) and \<open>d.get(k, v)\<close>.\<close>

definition dget :: "dict \<Rightarrow> string \<Rightarrow> pyval option" where
  "dget d k = map_of d k"

definition dget_default :: "dict \<Rightarrow> string \<Rightarrow> pyval \<Rightarrow> pyval" where
  "dget_default d k v = (case map_of d k of None \<Rightarrow> v | Some x \<Rightarrow> x)"

text \<open>\<open>d[k] = v\<close>, \<open>del d[k]\<close> and \<open>k in d\<close>.\<close>

definition dset :: "string \<Rightarrow> pyval \<Rightarrow> dict \<Rightarrow> dict" where
  "dset k v d = AList.update k v d"

definition ddel :: "string \<Rightarrow> dict \<Rightarrow> dict" where
  "ddel k d = AList.delete k d"

definition has_key :: "dict \<Rightarrow> string \<Rightarrow> bool" where
  "has_key d k = (map_of d k \<noteq> None)"

text \<open>Truth value of a Python value, as \<open>if v:\<close> and \<open>v or w\<close> test it.\<close>

fun truthy :: "pyval \<Rightarrow> bool" where
  "truthy PNone = False"
| "truthy (PBool b) = b"
| "truthy (PInt i) = (i \<noteq> 0)"
| "truthy (PFloat r) = (r \<noteq> 0)"
| "truthy (PStr s) = (s \<noteq> [])"
| "truthy (PList xs) = (xs \<noteq> [])"
| "truthy (PDict d) = (d \<noteq> [])"

text \<open>Decimal notation of an integer, as \<open>str\<close> prints it.\<close>

definition digit_char :: "nat \<Rightarrow> char" where
  "digit_char n = ''0123456789'' ! (n mod 10)"

fun nat_str :: "nat \<Rightarrow> string" where
  "nat_str n = (if n < 10 then [digit_char n] else nat_str (n div 10) @ [digit_char (n mod 10)])"

definition int_str :: "int \<Rightarrow> string" where
  "int_str i = (if i < 0 then CHR ''-'' # nat_str (nat (- i)) else nat_str (nat i))"

section \<open>The embedding provider and the numeric libraries\<close>

text \<open>
  What the code calls outside the repository is a parameter of the model:
  \<^item> \<open>embed_query\<close> and \<open>embed_documents\<close>: the embedding provider; either may raise;
  \<^item> \<open>cosine_similarity\<close>: sklearn's similarity of the query vector and a posting's
    embedding value, first entry of the result; it may raise (on a shape mismatch, say);
  \<^item> \<open>np_size_nested\<close>: the \<open>size\<close> of \<open>np.array(v)\<close> for a list \<open>v\<close> that holds lists, which
    numpy may refuse (a ragged list);
  \<^item> \<open>py_repr\<close>: \<open>str(v)\<close> for a float, a list or a dictionary.
\<close>

record env =
  embed_query :: "string \<Rightarrow> error + rat list"
  embed_documents :: "string list \<Rightarrow> error + rat list list"
  cosine_similarity :: "rat list \<Rightarrow> pyval \<Rightarrow> error + rat"
  np_size_nested :: "pyval list \<Rightarrow> error + nat"
  py_repr :: "pyval \<Rightarrow> string"

definition py_str :: "env \<Rightarrow> pyval \<Rightarrow> string" where
  "py_str E v =
     (case v of
        PStr s \<Rightarrow> s
      | PInt i \<Rightarrow> int_str i
      | PBool b \<Rightarrow> (if b then ''True'' else ''False'')
      | PNone \<Rightarrow> ''None''
      | _ \<Rightarrow> py_repr E v)"

fun is_list :: "pyval \<Rightarrow> bool" where
  "is_list (PList xs) = True"
| "is_list v = False"

text \<open>
  \<open>np.array(v).size\<close>: a value that is not a list is one element, a list without lists in
  it has as many elements as the list.
\<close>

definition np_size :: "env \<Rightarrow> pyval \<Rightarrow> error + nat" where
  "np_size E v =
     (case v of
        PList xs \<Rightarrow> (if list_ex is_list xs then np_size_nested E xs else Inr (length xs))
      | _ \<Rightarrow> Inr 1)"

section \<open>Posting identity and embedding text\<close>

definition generated_id :: "env \<Rightarrow> dict \<Rightarrow> string" where
  "generated_id E internship =
     (let title = dget_default internship ''title'' (PStr []);
          org = dget_default internship ''org'' (PStr [])
      in lower (replace_char CHR '' '' CHR ''_'' (py_str E title @ ''_'' @ py_str E org)))"

definition get_internship_id :: "env \<Rightarrow> dict \<Rightarrow> string" where
  "get_internship_id E internship =
     (case dget internship ''id'' of
        Some v \<Rightarrow> (if truthy v then py_str E v else generated_id E internship)
      | None \<Rightarrow> generated_id E internship)"

text \<open>\<open>sep.join(xs)\<close>: \<open>TypeError\<close> when an item is not a string.\<close>

fun py_join :: "string \<Rightarrow> pyval list \<Rightarrow> error + string" where
  "py_join sep [] = Inr []"
| "py_join sep [PStr s] = Inr s"
| "py_join sep (PStr s # rest) =
     (case py_join sep rest of Inl e \<Rightarrow> Inl e | Inr t \<Rightarrow> Inr (s @ sep @ t))"
| "py_join sep (v # rest) = Inl TypeError"

text \<open>
  \<open>v[:200]\<close>: a string or a list is cut; any other value cannot be sliced (the exception
  is written \<open>TypeError\<close> for all of them).
\<close>

definition slice200 :: "pyval \<Rightarrow> error + pyval" where
  "slice200 v =
     (case v of
        PStr s \<Rightarrow> Inr (PStr (take 200 s))
      | PList xs \<Rightarrow> Inr (PList (take 200 xs))
      | _ \<Rightarrow> Inl TypeError)"

definition get_internship_text :: "env \<Rightarrow> dict \<Rightarrow> error + string" where
  "get_internship_text E internship =
     (case (case dget_default internship ''sector'' (PStr []) of
              PList xs \<Rightarrow> (case py_join '', '' xs of Inl e \<Rightarrow> Inl e | Inr s \<Rightarrow> Inr (PStr s))
            | v \<Rightarrow> Inr v) of
        Inl e \<Rightarrow> Inl e
      | Inr sectors \<Rightarrow>
          (case slice200 (dget_default internship ''description'' (PStr [])) of
             Inl e \<Rightarrow> Inl e
           | Inr description \<Rightarrow>
               Inr (strip
                 (''Position: '' @ py_str E (dget_default internship ''title'' (PStr [])) @ '' '' @
                  ''Company: '' @ py_str E (dget_default internship ''org'' (PStr [])) @ '' '' @
                  ''Education Required: '' @
                     py_str E (dget_default internship ''required_education'' (PStr [])) @ '' '' @
                  ''Required Skills: '' @ py_str E (dget_default internship ''skills'' (PStr [])) @ '' '' @
                  ''Industry Sector: '' @ py_str E sectors @ '' '' @
                  ''Work Location: '' @ py_str E (dget_default internship ''location'' (PStr [])) @ '' '' @
                  ''Description: '' @ py_str E description))))"

section \<open>The vector cache\<close>

text \<open>The cache: posting identifier to embedding vector, a dictionary in insertion order.\<close>

type_synonym cache = "(string \<times> rat list) list"

definition in_cache :: "cache \<Rightarrow> string \<Rightarrow> bool" where
  "in_cache c k = (map_of c k \<noteq> None)"

text \<open>
  The first loop of \<open>precompute_doc_embeddings_new\<close>: the texts and identifiers of the
  postings that have no vector yet, in catalogue order. An entry that is not a dictionary is
  skipped; an exception of \<open>get_internship_text\<close> leaves the loop.
\<close>

fun collect_missing :: "env \<Rightarrow> pyval list \<Rightarrow> cache \<Rightarrow> error + (string list \<times> string list)" where
  "collect_missing E [] existing = Inr ([], [])"
| "collect_missing E (PDict internship # rest) existing =
     (let internship_id = get_internship_id E internship
      in if in_cache existing internship_id then collect_missing E rest existing
         else (case get_internship_text E internship of
                 Inl e \<Rightarrow> Inl e
               | Inr text \<Rightarrow>
                   (case collect_missing E rest existing of
                      Inl e \<Rightarrow> Inl e
                    | Inr (docs_to_compute, ids_to_compute) \<Rightarrow>
                        if text \<noteq> [] then Inr (text # docs_to_compute, internship_id # ids_to_compute)
                        else Inr (docs_to_compute, ids_to_compute))))"
| "collect_missing E (v # rest) existing = collect_missing E rest existing"

text \<open>
  The second loop: \<open>existing_embeddings[ids_to_compute[i]] = embedding_vector\<close> for every vector
  the provider returned. A vector beyond the last identifier is an \<open>IndexError\<close>, raised after
  the earlier vectors were stored.
\<close>

fun merge_new :: "string list \<Rightarrow> rat list list \<Rightarrow> cache \<Rightarrow> cache \<times> error option" where
  "merge_new ids [] existing = (existing, None)"
| "merge_new [] (v # vs) existing = (existing, Some IndexError)"
| "merge_new (i # ids) (v # vs) existing = merge_new ids vs (AList.update i v existing)"

text \<open>
  The outcome of a fill: what the call returns or raises, the dictionary it was given as the
  call leaves it (the code updates it in place), and the batches it sent to the provider.
\<close>

record fill_result =
  returned :: "error + cache"
  final_cache :: cache
  provider_calls :: "string list list"

definition precompute_doc_embeddings_new :: "env \<Rightarrow> pyval list \<Rightarrow> cache option \<Rightarrow> fill_result" where
  "precompute_doc_embeddings_new E internships existing_embeddings =
     (let existing = (case existing_embeddings of None \<Rightarrow> [] | Some c \<Rightarrow> c)
      in if internships = []
         then \<lparr>returned = Inr existing, final_cache = existing, provider_calls = []\<rparr>
         else
           (case collect_missing E internships existing of
              Inl e \<Rightarrow> \<lparr>returned = Inl e, final_cache = existing, provider_calls = []\<rparr>
            | Inr (docs_to_compute, ids_to_compute) \<Rightarrow>
                if docs_to_compute \<noteq> [] then
                  (case embed_documents E docs_to_compute of
                     Inl e \<Rightarrow>
                       \<lparr>returned = Inl e, final_cache = existing,
                        provider_calls = [docs_to_compute]\<rparr>
                   | Inr new_embeddings \<Rightarrow>
                       (case merge_new ids_to_compute new_embeddings existing of
                          (merged, Some e) \<Rightarrow>
                            \<lparr>returned = Inl e, final_cache = merged,
                             provider_calls = [docs_to_compute]\<rparr>
                        | (merged, None) \<Rightarrow>
                            \<lparr>returned = Inr merged, final_cache = merged,
                             provider_calls = [docs_to_compute]\<rparr>))
                else \<lparr>returned = Inr existing, final_cache = existing, provider_calls = []\<rparr>))"




section \<open>Merging vectors into postings at the API boundary\<close>

text \<open>Python's \<open>+\<close> on the values a posting can hold.\<close>

fun py_num :: "pyval \<Rightarrow> (int + rat) option" where
  "py_num (PBool b) = Some (Inl (if b then 1 else 0))"
| "py_num (PInt i) = Some (Inl i)"
| "py_num (PFloat r) = Some (Inr r)"
| "py_num v = None"

fun num_rat :: "int + rat \<Rightarrow> rat" where
  "num_rat (Inl i) = of_int i"
| "num_rat (Inr r) = r"

fun py_add :: "pyval \<Rightarrow> pyval \<Rightarrow> error + pyval" where
  "py_add (PStr s) (PStr t) = Inr (PStr (s @ t))"
| "py_add (PList xs) (PList ys) = Inr (PList (xs @ ys))"
| "py_add a b =
     (case (py_num a, py_num b) of
        (Some (Inl i), Some (Inl j)) \<Rightarrow> Inr (PInt (i + j))
      | (Some x, Some y) \<Rightarrow> Inr (PFloat (num_rat x + num_rat y))
      | _ \<Rightarrow> Inl TypeError)"

text \<open>\<open>internship.get('id') or internship.get('title', '') + internship.get('org', '')\<close>\<close>

definition title_plus_org :: "dict \<Rightarrow> error + pyval" where
  "title_plus_org internship =
     py_add (dget_default internship ''title'' (PStr [])) (dget_default internship ''org'' (PStr []))"

definition merge_key :: "dict \<Rightarrow> error + pyval" where
  "merge_key internship =
     (case dget internship ''id'' of
        Some v \<Rightarrow> (if truthy v then Inr v else title_plus_org internship)
      | None \<Rightarrow> title_plus_org internship)"

text \<open>
  \<open>internship_id in embeddings\<close>: the keys of the cache are strings, so a key of another
  hashable type is not there, and a list or a dictionary cannot be hashed.
\<close>

fun key_in_cache :: "pyval \<Rightarrow> cache \<Rightarrow> error + bool" where
  "key_in_cache (PStr s) embeddings = Inr (in_cache embeddings s)"
| "key_in_cache (PList xs) embeddings = Inl TypeError"
| "key_in_cache (PDict d) embeddings = Inl TypeError"
| "key_in_cache v embeddings = Inr False"

definition vector_value :: "rat list \<Rightarrow> pyval" where
  "vector_value v = PList (map PFloat v)"

text \<open>The merge loop of \<open>api_recommend\<close>; \<open>.get\<close> on an entry that is no dictionary raises.\<close>

fun merge_embeddings :: "pyval list \<Rightarrow> cache \<Rightarrow> error + pyval list" where
  "merge_embeddings [] embeddings = Inr []"
| "merge_embeddings (PDict internship # rest) embeddings =
     (case merge_key internship of
        Inl e \<Rightarrow> Inl e
      | Inr internship_id \<Rightarrow>
          (case key_in_cache internship_id embeddings of
             Inl e \<Rightarrow> Inl e
           | Inr present \<Rightarrow>
               (case merge_embeddings rest embeddings of
                  Inl e \<Rightarrow> Inl e
                | Inr merged \<Rightarrow>
                    if present
                    then (case internship_id of
                            PStr k \<Rightarrow>
                              (case map_of embeddings k of
                                 Some v \<Rightarrow> Inr (PDict (dset ''embedding'' (vector_value v) internship) # merged)
                               | None \<Rightarrow> Inr merged)
                          | _ \<Rightarrow> Inr merged)
                    else Inr merged)))"
| "merge_embeddings (v # rest) embeddings = Inl AttributeError"

section \<open>The primary ranking path\<close>

text \<open>\<open>top_k = max(3, min(7, top_k))\<close>\<close>

definition clamp_top_k :: "int \<Rightarrow> nat" where
  "clamp_top_k top_k = nat (max 3 (min 7 top_k))"

record relevance =
  original_index :: nat
  exact_matches :: nat
  partial_matches :: nat
  relevance_score :: rat

text \<open>
  Step 1, the gate. The two lists the code fills side by side (\<open>skill_relevant_internships\<close>
  and \<open>skill_relevance_data\<close>) are one list of pairs. \<open>.split\<close> on a \<open>skills\<close> value that is
  not a string raises \<open>AttributeError\<close>.
\<close>

fun gate :: "string \<Rightarrow> nat \<Rightarrow> pyval list \<Rightarrow> error + (dict \<times> relevance) list" where
  "gate skills i [] = Inr []"
| "gate skills i (PDict internship # rest) =
     (case dget_default internship ''skills'' (PStr []) of
        PStr internship_skills \<Rightarrow>
          (case calculate_skill_relevance skills internship_skills of
             (exact, partial, rel) \<Rightarrow>
               (case gate skills (i + 1) rest of
                  Inl e \<Rightarrow> Inl e
                | Inr admitted \<Rightarrow>
                    if exact > 0 \<or> partial \<ge> 2 \<or> rel > 2 / 10
                    then Inr ((internship,
                               \<lparr>original_index = i, exact_matches = exact,
                                partial_matches = partial, relevance_score = rel\<rparr>) # admitted)
                    else Inr admitted))
      | _ \<Rightarrow> Inl AttributeError)"
| "gate skills i (v # rest) = gate skills (i + 1) rest"

text \<open>
  Step 2, the semantic scores: 0.0 for a missing or empty embedding and for a similarity
  that raises. \<open>np.array\<close> stands outside the \<open>try\<close>, so its exception leaves the call.
\<close>

fun semantic_scores :: "env \<Rightarrow> rat list \<Rightarrow> (dict \<times> relevance) list \<Rightarrow> error + rat list" where
  "semantic_scores E q_vec [] = Inr []"
| "semantic_scores E q_vec ((internship, r) # rest) =
     (let doc_emb = dget_default internship ''embedding'' (PList [])
      in case np_size E doc_emb of
           Inl e \<Rightarrow> Inl e
         | Inr n \<Rightarrow>
             (let s = (if n = 0 then 0
                       else (case cosine_similarity E q_vec doc_emb of
                               Inl e \<Rightarrow> 0
                             | Inr sim \<Rightarrow> sim))
              in case semantic_scores E q_vec rest of
                   Inl e \<Rightarrow> Inl e
                 | Inr scores \<Rightarrow> Inr (s # scores)))"

text \<open>
  Step 3, the boosts. The score is a sum of floats, and rounding decides the order of
  postings whose exact sums are equal, so the additions and multiplications are those of
  doubles: the double nearest to the exact result, a tie going to the even mantissa.
  Infinities, NaN and the subnormal range are outside the model; the scores are sums of
  at most five numbers of moderate size.
\<close>

text \<open>\<open>n / d\<close> to the nearest integer, a tie going to the even one, for a positive \<open>d\<close>.\<close>

definition round_ratio :: "int \<Rightarrow> int \<Rightarrow> int" where
  "round_ratio n d =
     (let f = n div d; r = n mod d
      in if 2 * r < d then f
         else if d < 2 * r then f + 1
         else if even f then f else f + 1)"

text \<open>The integer \<open>e\<close> with \<open>2 ^ e \<le> p / q < 2 ^ (e + 1)\<close>, for positive \<open>p\<close> and \<open>q\<close>.\<close>

definition floor_log2 :: "int \<Rightarrow> int \<Rightarrow> int" where
  "floor_log2 p q =
     (let e0 = bitlen p - bitlen q
      in if (if 0 \<le> e0 then q * 2 ^ nat e0 \<le> p else q \<le> p * 2 ^ nat (- e0))
         then e0 else e0 - 1)"

text \<open>
  The double nearest to a number \<open>p / q\<close>: with \<open>e\<close> such that \<open>\<bar>p / q\<bar> / 2 ^ e\<close> lies between
  \<open>2 ^ 52\<close> and \<open>2 ^ 53\<close>, the mantissa is that quotient rounded to an integer, and the double
  is the mantissa times \<open>2 ^ e\<close>, with the sign of \<open>p\<close>.
\<close>

definition round_double :: "rat \<Rightarrow> rat" where
  "round_double x =
     (case quotient_of x of
        (p, q) \<Rightarrow>
          if p = 0 then 0
          else
            (let a = \<bar>p\<bar>;
                 e = floor_log2 a q - 52;
                 v = (if 0 \<le> e
                      then of_int (round_ratio a (q * 2 ^ nat e) * 2 ^ nat e)
                      else of_int (round_ratio (a * 2 ^ nat (- e)) q) / of_int (2 ^ nat (- e)))
             in if p < 0 then - v else v))"

text \<open>\<open>a + b\<close> and \<open>a * b\<close> on floats, and the float an integer is turned into.\<close>

definition fl_add :: "rat \<Rightarrow> rat \<Rightarrow> rat" where
  "fl_add a b = round_double (a + b)"

definition fl_mul :: "rat \<Rightarrow> rat \<Rightarrow> rat" where
  "fl_mul a b = round_double (a * b)"

definition float_of_nat :: "nat \<Rightarrow> rat" where
  "float_of_nat n = round_double (of_nat n)"

text \<open>
  The boost as the code adds it up, from \<open>boost = 0.0\<close>: \<open>+= 0.25\<close> on an education match,
  \<open>+= 0.30 * exact_matches\<close>, \<open>+= 0.15 * min(partial_matches, 3)\<close>, \<open>+= 0.08\<close> on a location
  match. A literal such as \<open>0.30\<close> is the double nearest to it.
\<close>

definition boost_sum :: "bool \<Rightarrow> nat \<Rightarrow> nat \<Rightarrow> bool \<Rightarrow> rat" where
  "boost_sum edu_match exact partial location_match =
     (let boost = 0;
          boost = (if edu_match then fl_add boost (round_double (25 / 100)) else boost);
          boost = fl_add boost (fl_mul (round_double (30 / 100)) (float_of_nat exact));
          boost = fl_add boost (fl_mul (round_double (15 / 100)) (float_of_nat (min partial 3)))
      in if location_match then fl_add boost (round_double (8 / 100)) else boost)"

definition education_matches :: "string \<Rightarrow> string \<Rightarrow> bool" where
  "education_matches req_edu user_edu =
     (req_edu \<noteq> [] \<and> user_edu \<noteq> [] \<and>
      (req_edu = user_edu \<or> str_in req_edu user_edu \<or> str_in user_edu req_edu))"

definition location_matches :: "string \<Rightarrow> string \<Rightarrow> bool" where
  "location_matches user_loc intern_loc =
     (user_loc \<noteq> [] \<and> intern_loc \<noteq> [] \<and>
      (user_loc = intern_loc \<or> str_in ''remote'' intern_loc \<or> user_loc = ''remote'' \<or>
       list_ex (\<lambda>loc. str_in loc intern_loc) (split_ws user_loc) \<or>
       list_ex (\<lambda>loc. str_in loc user_loc) (split_ws intern_loc)))"

text \<open>
  An entry of \<open>final_scores\<close>. The posting it refers to is kept as the posting's value and,
  for the model with a store below, the position of the posting in the input list.
\<close>

record scored =
  score :: rat
  origin :: nat
  internship :: dict
  match_details :: dict

definition score_posting :: "env \<Rightarrow> string \<Rightarrow> string \<Rightarrow> dict \<times> relevance \<Rightarrow> rat \<Rightarrow> scored" where
  "score_posting E user_edu user_loc adm base_score =
     (case adm of (posting, relevance_data) \<Rightarrow>
        let req_edu = lower (py_str E (dget_default posting ''required_education'' (PStr [])));
            edu_match = education_matches req_edu user_edu;
            exact = exact_matches relevance_data;
            partial = partial_matches relevance_data;
            intern_loc = lower (py_str E (dget_default posting ''location'' (PStr [])));
            location_match = location_matches user_loc intern_loc;
            boost = boost_sum edu_match exact partial location_match;
            final_score = fl_add base_score boost
        in \<lparr>score = final_score,
            origin = original_index relevance_data,
            internship = posting,
            match_details =
              [(''exact_skill_matches'', PInt (int exact)),
               (''partial_skill_matches'', PInt (int partial)),
               (''skill_relevance_score'', PFloat (relevance_score relevance_data)),
               (''education_match'', PBool edu_match),
               (''location_match'', PBool location_match),
               (''semantic_similarity'', PFloat base_score)]\<rparr>)"

text \<open>
  Steps 2 to 4 for a non-empty list of admitted postings: embed the query, score, sort
  (\<open>list.sort\<close> with \<open>reverse=True\<close> is stable: equal scores keep their order) and cut.
  A query embedding that fails gives the empty list.
\<close>

definition primary_query :: "string \<Rightarrow> string \<Rightarrow> string \<Rightarrow> string" where
  "primary_query education skills location =
     ''Skills: '' @ skills @ '' '' @ skills @ '' '' @ skills @
     '', Education: '' @ education @ '' '' @ education @
     '', Position: '' @ location"

definition rank_admitted ::
  "env \<Rightarrow> (dict \<times> relevance) list \<Rightarrow> string \<Rightarrow> string \<Rightarrow> string \<Rightarrow> nat \<Rightarrow> error + scored list" where
  "rank_admitted E admitted education skills location top_k =
     (let top_k = min top_k (length admitted);
          query = primary_query education skills location
      in case embed_query E query of
           Inl e \<Rightarrow> Inr []
         | Inr q_vec \<Rightarrow>
             (case semantic_scores E q_vec admitted of
                Inl e \<Rightarrow> Inl e
              | Inr sems \<Rightarrow>
                  (let user_edu = lower education;
                       user_loc = lower location;
                       final_scores =
                         map (\<lambda>(adm, base_score). score_posting E user_edu user_loc adm base_score)
                           (zip admitted sems);
                       sorted_scores = sort_key (\<lambda>x. - score x) final_scores
                   in Inr (take top_k sorted_scores))))"

text \<open>
  The loop that builds the results: a copy of the posting with \<open>score\<close> and
  \<open>match_details\<close> set and \<open>embedding\<close> deleted.
\<close>

definition make_result :: "scored \<Rightarrow> dict" where
  "make_result item =
     (let internship_copy = internship item;
          internship_copy = dset ''score'' (PFloat (score item)) internship_copy;
          internship_copy = dset ''match_details'' (PDict (match_details item)) internship_copy
      in if has_key internship_copy ''embedding'' then ddel ''embedding'' internship_copy
         else internship_copy)"

section \<open>The fallback path\<close>

text \<open>
  The scan of the fallback: the postings with a non-empty embedding whose similarity to the
  query is above 0.4, with that similarity and their position in the input list.
\<close>

fun fallback_scan :: "env \<Rightarrow> rat list \<Rightarrow> nat \<Rightarrow> pyval list \<Rightarrow> error + (rat \<times> nat \<times> dict) list" where
  "fallback_scan E q_vec i [] = Inr []"
| "fallback_scan E q_vec i (PDict posting # rest) =
     (let doc_emb = dget_default posting ''embedding'' (PList [])
      in case np_size E doc_emb of
           Inl e \<Rightarrow> Inl e
         | Inr n \<Rightarrow>
             (case fallback_scan E q_vec (i + 1) rest of
                Inl e \<Rightarrow> Inl e
              | Inr valid \<Rightarrow>
                  if n = 0 then Inr valid
                  else (case cosine_similarity E q_vec doc_emb of
                          Inl e \<Rightarrow> Inr valid
                        | Inr sim \<Rightarrow>
                            if sim > 4 / 10 then Inr ((sim, i, posting) # valid)
                            else Inr valid)))"
| "fallback_scan E q_vec i (v # rest) = fallback_scan E q_vec (i + 1) rest"

text \<open>
  \<open>np.argsort\<close>: the positions of a list in ascending order of their values. numpy does not
  say in which order equal values come; here they keep their order.
\<close>

definition argsort :: "rat list \<Rightarrow> nat list" where
  "argsort xs = sort_key (\<lambda>i. xs ! i) [0..<length xs]"

text \<open>\<open>xs[-k:]\<close>: the last \<open>k\<close> items, and the whole list for \<open>k = 0\<close>.\<close>

definition last_items :: "nat \<Rightarrow> 'a list \<Rightarrow> 'a list" where
  "last_items k xs = (if k = 0 then xs else drop (length xs - k) xs)"

definition fallback_query :: "string \<Rightarrow> string \<Rightarrow> string" where
  "fallback_query education skills =
     ''Skills: '' @ skills @ '' '' @ skills @ '' '' @ skills @ '' '' @ skills @
     '', Education: '' @ education @ '' '' @ education"

definition fallback_item :: "rat \<times> nat \<times> dict \<Rightarrow> scored" where
  "fallback_item v =
     (case v of (sim, i, posting) \<Rightarrow>
        \<lparr>score = sim,
         origin = i,
         internship = posting,
         match_details =
           [(''exact_skill_matches'', PInt 0),
            (''partial_skill_matches'', PInt 0),
            (''skill_relevance_score'', PFloat 0),
            (''education_match'', PBool False),
            (''location_match'', PBool False),
            (''semantic_similarity'', PFloat sim),
            (''fallback_recommendation'', PBool True)]\<rparr>)"

text \<open>The fallback up to the choice of the postings it returns, best first.\<close>

definition fallback_rank ::
  "env \<Rightarrow> pyval list \<Rightarrow> string \<Rightarrow> string \<Rightarrow> string \<Rightarrow> nat \<Rightarrow> error + scored list" where
  "fallback_rank E internships education skills location top_k =
     (let query = fallback_query education skills
      in case embed_query E query of
           Inl e \<Rightarrow> Inr []
         | Inr q_vec \<Rightarrow>
             (case fallback_scan E q_vec 0 internships of
                Inl e \<Rightarrow> Inl e
              | Inr valid \<Rightarrow>
                  if valid = [] then Inr []
                  else
                    (let top_k = min top_k (length valid);
                         idx_sorted = rev (last_items top_k (argsort (map fst valid)))
                     in Inr (map (\<lambda>idx. fallback_item (valid ! idx)) idx_sorted))))"

definition semantic_fallback_recommendation ::
  "env \<Rightarrow> pyval list \<Rightarrow> string \<Rightarrow> string \<Rightarrow> string \<Rightarrow> nat \<Rightarrow> error + dict list" where
  "semantic_fallback_recommendation E internships education skills location top_k =
     (case fallback_rank E internships education skills location top_k of
        Inl e \<Rightarrow> Inl e
      | Inr items \<Rightarrow> Inr (map make_result items))"

section \<open>The ranking operation\<close>

text \<open>
  The requests carry strings and an integer (the API's request model), so \<open>str(x).strip()\<close>
  is \<open>strip\<close>. The result is the list of recommendations, or the exception that leaves the
  call.
\<close>

definition recommend ::
  "env \<Rightarrow> pyval list \<Rightarrow> string \<Rightarrow> string \<Rightarrow> string \<Rightarrow> int \<Rightarrow> error + dict list" where
  "recommend E internships education skills location top_k =
     (if internships = [] then Inr []
      else
        (let education = strip education;
             skills = strip skills;
             location = strip location;
             top_k = clamp_top_k top_k
         in case gate skills 0 internships of
              Inl e \<Rightarrow> Inl e
            | Inr admitted \<Rightarrow>
                if admitted = []
                then semantic_fallback_recommendation E internships education skills location top_k
                else (case rank_admitted E admitted education skills location top_k of
                        Inl e \<Rightarrow> Inl e
                      | Inr items \<Rightarrow> Inr (map make_result items))))"

section \<open>Sample data\<close>

text \<open>
  A provider and two postings on which the functions are run below. The provider returns
  the vector \<open>[1, 0]\<close> for every text, and every similarity is 0.5.
\<close>

definition sample_env :: env where
  "sample_env =
     \<lparr>embed_query = (\<lambda>q. Inr [1, 0]),
      embed_documents = (\<lambda>docs. Inr (map (\<lambda>d. [1, 0]) docs)),
      cosine_similarity = (\<lambda>q v. Inr (1 / 2)),
      np_size_nested = (\<lambda>xs. Inl ValueError),
      py_repr = (\<lambda>v. ''?'')\<rparr>"

text \<open>A provider that is down: every call raises.\<close>

definition failing_env :: env where
  "failing_env =
     \<lparr>embed_query = (\<lambda>q. Inl (ProviderError ''down'')),
      embed_documents = (\<lambda>docs. Inl (ProviderError ''down'')),
      cosine_similarity = (\<lambda>q v. Inr (1 / 2)),
      np_size_nested = (\<lambda>xs. Inl ValueError),
      py_repr = (\<lambda>v. ''?'')\<rparr>"

text \<open>A posting without an \<open>id\<close>, as the catalogue file holds it.\<close>

definition analyst :: dict where
  "analyst = [(''title'', PStr ''Data Analyst''), (''org'', PStr ''Acme''), (''skills'', PStr ''sql, excel'')]"

text \<open>A posting with an \<open>id\<close> and an embedding, as the API hands it to the ranking.\<close>

definition java_dev :: dict where
  "java_dev =
     [(''id'', PStr ''p1''), (''title'', PStr ''Developer''), (''org'', PStr ''Initech''),
      (''skills'', PStr ''java''), (''embedding'', PList [PFloat 1, PFloat 0])]"

definition cobol_dev :: dict where
  "cobol_dev =
     [(''id'', PStr ''p2''), (''title'', PStr ''Maintainer''), (''org'', PStr ''Initech''),
      (''skills'', PStr ''cobol''), (''embedding'', PList [PFloat 0, PFloat 1])]"



definition java_lead :: dict where
  "java_lead =
     [(''id'', PStr ''p3''), (''title'', PStr ''Lead''), (''org'', PStr ''Initech''),
      (''required_education'', PStr ''BSc''), (''skills'', PStr ''java, sql''),
      (''location'', PStr ''Remote''), (''embedding'', PList [PFloat 1, PFloat 1])]"

text \<open>
  A provider with similarities that differ: the similarity of a posting is the first number
  of its embedding.
\<close>

definition graded_env :: env where
  "graded_env =
     \<lparr>embed_query = (\<lambda>q. Inr [1, 0]),
      embed_documents = (\<lambda>docs. Inr (map (\<lambda>d. [1, 0]) docs)),
      cosine_similarity =
        (\<lambda>q v. case v of PList (PFloat x # rest) \<Rightarrow> Inr x | _ \<Rightarrow> Inl ValueError),
      np_size_nested = (\<lambda>xs. Inl ValueError),
      py_repr = (\<lambda>v. ''?'')\<rparr>"




section \<open>The ranking with the postings in a store\<close>

text \<open>
  Python hands dictionaries around by reference, and the ranking writes into dictionaries
  (\<open>internship_copy['score'] = ...\<close>, \<open>del internship_copy['embedding']\<close>). To say which
  dictionaries it writes into, the objects are put in a store: a list of values, an address
  being a position in it. The catalogue is a list of addresses, and a call returns the
  store as it leaves it together with the addresses of its results (or its exception). The
  gate, the scan and the scoring only read the catalogue, so they are the functions above,
  run on the values found at the addresses.
\<close>

type_synonym store = "pyval list"

definition deref :: "store \<Rightarrow> nat \<Rightarrow> pyval" where
  "deref h a = (if a < length h then h ! a else PNone)"

text \<open>The posting an item refers to (\<open>item['internship']\<close>), read through the catalogue.\<close>

definition posting_at :: "store \<Rightarrow> nat list \<Rightarrow> nat \<Rightarrow> pyval" where
  "posting_at h refs i = (if i < length refs then deref h (refs ! i) else PNone)"

text \<open>A write into the dictionary at an address.\<close>

definition update_dict :: "store \<Rightarrow> nat \<Rightarrow> (dict \<Rightarrow> dict) \<Rightarrow> store" where
  "update_dict h a f = h[a := (case deref h a of PDict d \<Rightarrow> PDict (f d) | v \<Rightarrow> v)]"

definition has_key_at :: "store \<Rightarrow> nat \<Rightarrow> string \<Rightarrow> bool" where
  "has_key_at h a k = (case deref h a of PDict d \<Rightarrow> has_key d k | v \<Rightarrow> False)"

text \<open>
  The loop that builds the results, statement by statement: \<open>.copy()\<close> puts a new dictionary
  with the entries of the posting at a fresh address, the two assignments and the deletion
  write at that address, and the address is appended to \<open>results\<close>.
\<close>

fun build_results :: "store \<Rightarrow> nat list \<Rightarrow> scored list \<Rightarrow> nat list \<Rightarrow> store \<times> (error + nat list)" where
  "build_results h refs [] results = (h, Inr results)"
| "build_results h refs (item # items) results =
     (case posting_at h refs (origin item) of
        PDict d \<Rightarrow>
          (let internship_copy = length h;
               h = h @ [PDict d];
               h = update_dict h internship_copy (dset ''score'' (PFloat (score item)));
               h = update_dict h internship_copy (dset ''match_details'' (PDict (match_details item)));
               h = (if has_key_at h internship_copy ''embedding''
                    then update_dict h internship_copy (ddel ''embedding'')
                    else h)
           in build_results h refs items (results @ [internship_copy]))
      | v \<Rightarrow> (h, Inl AttributeError))"

definition fallback_in_store ::
  "env \<Rightarrow> store \<Rightarrow> nat list \<Rightarrow> string \<Rightarrow> string \<Rightarrow> string \<Rightarrow> nat \<Rightarrow> store \<times> (error + nat list)" where
  "fallback_in_store E h refs education skills location top_k =
     (case fallback_rank E (map (deref h) refs) education skills location top_k of
        Inl e \<Rightarrow> (h, Inl e)
      | Inr items \<Rightarrow> build_results h refs items [])"

definition recommend_in_store ::
  "env \<Rightarrow> store \<Rightarrow> nat list \<Rightarrow> string \<Rightarrow> string \<Rightarrow> string \<Rightarrow> int \<Rightarrow> store \<times> (error + nat list)" where
  "recommend_in_store E h refs education skills location top_k =
     (let internships = map (deref h) refs
      in if internships = [] then (h, Inr [])
         else
           (let education = strip education;
                skills = strip skills;
                location = strip location;
                top_k = clamp_top_k top_k
            in case gate skills 0 internships of
                 Inl e \<Rightarrow> (h, Inl e)
               | Inr admitted \<Rightarrow>
                   if admitted = []
                   then fallback_in_store E h refs education skills location top_k
                   else (case rank_admitted E admitted education skills location top_k of
                           Inl e \<Rightarrow> (h, Inl e)
                         | Inr items \<Rightarrow> build_results h refs items [])))"

text \<open>A store with three postings, and a catalogue that lists them.\<close>

definition sample_store :: store where
  "sample_store = [PDict java_dev, PDict cobol_dev, PDict java_lead]"

section \<open>Notions the properties are stated with\<close>

text \<open>The entries of a catalogue that are dictionaries, in catalogue order.\<close>

fun dict_entries :: "pyval list \<Rightarrow> dict list" where
  "dict_entries [] = []"
| "dict_entries (PDict d # rest) = d # dict_entries rest"
| "dict_entries (v # rest) = dict_entries rest"

text \<open>
  The condition of the gate on one posting: its \<open>skills\<close> is a string and the scorer gives
  an exact match, or two partial matches, or a relevance above 0.2.
\<close>

definition admits :: "string \<Rightarrow> dict \<Rightarrow> bool" where
  "admits skills posting =
     (case dget_default posting ''skills'' (PStr []) of
        PStr internship_skills \<Rightarrow>
          (case calculate_skill_relevance skills internship_skills of
             (exact, partial, rel) \<Rightarrow> exact > 0 \<or> partial \<ge> 2 \<or> rel > 2 / 10)
      | _ \<Rightarrow> False)"


text \<open>
  The similarity the fallback has for a posting: none when the embedding is missing or has
  no elements, and none when the similarity computation raises.
\<close>

definition fallback_similarity :: "env \<Rightarrow> rat list \<Rightarrow> dict \<Rightarrow> rat option" where
  "fallback_similarity E q_vec posting =
     (case dget posting ''embedding'' of
        None \<Rightarrow> None
      | Some emb \<Rightarrow>
          if np_size E emb = Inr 0 then None
          else (case cosine_similarity E q_vec emb of Inl e \<Rightarrow> None | Inr sim \<Rightarrow> Some sim))"

text \<open>The postings the fallback keeps: similarity strictly above 0.4.\<close>

definition survives :: "env \<Rightarrow> rat list \<Rightarrow> dict \<Rightarrow> bool" where
  "survives E q_vec posting =
     (case fallback_similarity E q_vec posting of None \<Rightarrow> False | Some sim \<Rightarrow> sim > 4 / 10)"

section \<open>Facts about strings\<close>

lemma starts_with_iff: "starts_with p s \<longleftrightarrow> (\<exists>suf. s = p @ suf)"
  by (induction p s rule: starts_with.induct) auto

lemma str_in_iff: "str_in sub s \<longleftrightarrow> (\<exists>pre suf. s = pre @ sub @ suf)"
proof (induction s)
  case Nil
  then show ?case by auto
next
  case (Cons c cs)
  show ?case
  proof
    assume "str_in sub (c # cs)"
    then consider "starts_with sub (c # cs)" | "str_in sub cs" by auto
    then show "\<exists>pre suf. c # cs = pre @ sub @ suf"
    proof cases
      case 1
      then obtain suf where "c # cs = sub @ suf" by (auto simp: starts_with_iff)
      then have "c # cs = [] @ sub @ suf" by simp
      then show ?thesis by blast
    next
      case 2
      then obtain pre suf where "cs = pre @ sub @ suf" using Cons.IH by auto
      then have "c # cs = (c # pre) @ sub @ suf" by simp
      then show ?thesis by blast
    qed
  next
    assume "\<exists>pre suf. c # cs = pre @ sub @ suf"
    then obtain pre suf where e: "c # cs = pre @ sub @ suf" by auto
    show "str_in sub (c # cs)"
    proof (cases pre)
      case Nil
      then have "starts_with sub (c # cs)" using e by (auto simp: starts_with_iff)
      then show ?thesis by simp
    next
      case (Cons a pre')
      then have "cs = pre' @ sub @ suf" using e by simp
      then have "str_in sub cs" using Cons.IH by auto
      then show ?thesis by simp
    qed
  qed
qed

section \<open>The skill-relevance scorer\<close>

lemma scan_intern_tokens_iff:
  "scan_intern_tokens u ex ps \<longleftrightarrow>
     length u > 2 \<and> u \<notin> set ex \<and> (\<exists>p\<in>set ps. length p > 2 \<and> (str_in u p \<or> str_in p u))"
  by (induction ps) auto

lemma count_partial_eq:
  "count_partial us ex ps n = n + length (filter (\<lambda>u. scan_intern_tokens u ex ps) us)"
  by (induction us arbitrary: n) auto

lemma distinct_skill_tokens: "distinct (skill_tokens x)"
  by (simp add: skill_tokens_def)

lemma length_filter_card: "distinct xs \<Longrightarrow> length (filter Q xs) = card {x \<in> set xs. Q x}"
  by (metis distinct_filter distinct_card set_filter)

lemma set_skill_tokens:
  "set (skill_tokens x) = {lower (strip s) | s. s \<in> set (split_on CHR '','' x) \<and> strip s \<noteq> []}"
  by (auto simp: skill_tokens_def)

text \<open>
  The example of the specification: one exact match (\<open>python\<close>), no partial match among the
  tokens that are left, relevance \<open>(1 * 1.0 + 0 * 0.6) / 2\<close>.
\<close>

lemma calculate_skill_relevance_example:
  "calculate_skill_relevance ''python, sql'' ''python, excel'' = (1, 0, 1 / 2)"
  by code_simp

text \<open>
  Claim C4. The tokens of a skill string are its comma-separated pieces, trimmed and
  lower-cased, without the pieces that are empty after trimming. With \<open>U\<close> the set of user
  tokens and \<open>P\<close> the set of posting tokens, \<open>calculate_skill_relevance\<close> returns \<open>(0, 0, 0.0)\<close>
  when \<open>U\<close> or \<open>P\<close> is empty; otherwise the exact count is the size of \<open>U \<inter> P\<close>, the partial
  count is the number of user tokens longer than 2 that are not exact matches and for which
  some posting token longer than 2 contains the user token or is contained in it (each user
  token counted once), and the relevance score is
  \<open>(exactCount * 1.0 + partialCount * 0.6) / |U|\<close>, with no cap applied.
\<close>

theorem calculate_skill_relevance_spec:
  "set (skill_tokens x) = {lower (strip s) | s. s \<in> set (split_on CHR '','' x) \<and> strip s \<noteq> []}
   \<and> calculate_skill_relevance user_skills internship_skills =
     (let U = set (skill_tokens user_skills);
          P = set (skill_tokens internship_skills);
          exactCount = card (U \<inter> P);
          partialCount = card {u \<in> U. length u > 2 \<and> u \<notin> U \<inter> P \<and>
             (\<exists>p \<in> P. length p > 2 \<and>
                ((\<exists>pre suf. p = pre @ u @ suf) \<or> (\<exists>pre suf. u = pre @ p @ suf)))}
      in if U = {} \<or> P = {} then (0, 0, 0)
         else (exactCount, partialCount,
               (of_nat exactCount * 1 + of_nat partialCount * (6 / 10)) / of_nat (card U)))"
proof -
  let ?us = "skill_tokens user_skills" and ?ps = "skill_tokens internship_skills"
  let ?ex = "filter (\<lambda>u. u \<in> set ?ps) ?us"
  have d: "distinct ?us" by (rule distinct_skill_tokens)
  have ex_set: "set ?ex = set ?us \<inter> set ?ps" by auto
  have ex_len: "length ?ex = card (set ?us \<inter> set ?ps)"
    using d by (metis distinct_card distinct_filter ex_set)
  have pc: "count_partial ?us ?ex ?ps 0 =
      card {u \<in> set ?us. length u > 2 \<and> u \<notin> set ?us \<inter> set ?ps \<and>
             (\<exists>p \<in> set ?ps. length p > 2 \<and>
                ((\<exists>pre suf. p = pre @ u @ suf) \<or> (\<exists>pre suf. u = pre @ p @ suf)))}"
    unfolding count_partial_eq length_filter_card[OF d] scan_intern_tokens_iff ex_set str_in_iff
    by simp
  have tot: "length ?us = card (set ?us)" using d by (simp add: distinct_card)
  have pos: "?us \<noteq> [] \<Longrightarrow> 0 < length ?us" by simp
  show ?thesis
    unfolding calculate_skill_relevance_def Let_def pc ex_len
    using set_skill_tokens[of x] tot pos by (auto simp: Let_def)
qed

section \<open>Posting identity\<close>

text \<open>
  \<open>get_internship_id\<close> returns an explicit, non-empty string \<open>id\<close> as it is, and otherwise
  the lower-cased \<open>title_org\<close> with spaces replaced by underscores.
\<close>

lemma get_internship_id_explicit:
  "dget p ''id'' = Some (PStr s) \<Longrightarrow> s \<noteq> [] \<Longrightarrow> get_internship_id E p = s"
  by (simp add: get_internship_id_def py_str_def)

lemma get_internship_id_generated:
  "dget p ''id'' = None \<or> dget p ''id'' = Some (PStr []) \<Longrightarrow>
   get_internship_id E p =
     lower (replace_char CHR '' '' CHR ''_''
       (py_str E (dget_default p ''title'' (PStr [])) @ ''_'' @ py_str E (dget_default p ''org'' (PStr []))))"
  by (auto simp: get_internship_id_def generated_id_def)

text \<open>
  The API's merge loop does not call \<open>get_internship_id\<close>: for a posting without an \<open>id\<close> it
  looks the cache up under \<open>title + org\<close>, which is one character shorter than the key the
  fill stored and so never equal to it.
\<close>

lemma merge_key_without_id:
  assumes "dget p ''id'' = None \<or> dget p ''id'' = Some (PStr [])"
    and "dget_default p ''title'' (PStr []) = PStr t"
    and "dget_default p ''org'' (PStr []) = PStr org"
  shows "merge_key p = Inr (PStr (t @ org)) \<and> t @ org \<noteq> get_internship_id E p"
proof -
  have "length (get_internship_id E p) = length (t @ org) + 1"
    using assms by (auto simp: get_internship_id_generated lower_def replace_char_def py_str_def)
  then have "length (t @ org) \<noteq> length (get_internship_id E p)" by simp
  then have "t @ org \<noteq> get_internship_id E p" by metis
  moreover have "merge_key p = Inr (PStr (t @ org))"
    using assms by (auto simp: merge_key_def title_plus_org_def)
  ultimately show ?thesis by simp
qed

text \<open>
  Claim C1, on the posting \<open>analyst\<close> (title "Data Analyst", organisation "Acme", no \<open>id\<close>):
  the fill stores its vector under \<open>data_analyst_acme\<close>, the API's merge loop looks it up
  under \<open>Data AnalystAcme\<close>, and the merge of the catalogue with the cache the fill returned
  drops the posting. The key of the merge is not the key of the fill.
\<close>

theorem api_merge_key_mismatch:
  "get_internship_id sample_env analyst = ''data_analyst_acme''
   \<and> merge_key analyst = Inr (PStr ''Data AnalystAcme'')
   \<and> returned (precompute_doc_embeddings_new sample_env [PDict analyst] (Some []))
       = Inr [(''data_analyst_acme'', [1, 0])]
   \<and> merge_embeddings [PDict analyst] [(''data_analyst_acme'', [1, 0])] = Inr []"
  by code_simp


section \<open>The number of recommendations\<close>

lemma clamp_top_k_bounds: "3 \<le> clamp_top_k k \<and> clamp_top_k k \<le> 7"
  by (auto simp: clamp_top_k_def max_def min_def)

lemma length_semantic_scores:
  "semantic_scores E q admitted = Inr sems \<Longrightarrow> length sems = length admitted"
  by (induction admitted arbitrary: sems)
     (auto simp: Let_def split: sum.splits prod.splits)

lemma length_rank_admitted_le:
  "rank_admitted E admitted ed sk loc k = Inr items \<Longrightarrow> length items \<le> min k (length admitted)"
  by (auto simp: rank_admitted_def Let_def dest: length_semantic_scores split: sum.splits)

lemma length_rank_admitted_eq:
  "rank_admitted E admitted ed sk loc k = Inr items \<Longrightarrow>
   embed_query E (primary_query ed sk loc) = Inr q \<Longrightarrow>
   length items = min k (length admitted)"
  by (auto simp: rank_admitted_def Let_def dest: length_semantic_scores split: sum.splits)

lemma length_argsort: "length (argsort xs) = length xs"
  by (simp add: argsort_def)

lemma length_last_items: "0 < k \<Longrightarrow> length (last_items k xs) = min k (length xs)"
  by (auto simp: last_items_def)

lemma length_fallback_rank:
  assumes "fallback_rank E ps ed sk loc k = Inr items"
    and "embed_query E (fallback_query ed sk) = Inr q"
    and "fallback_scan E q 0 ps = Inr valid"
    and "0 < k"
  shows "length items = min k (length valid)"
  using assms
  by (auto simp: fallback_rank_def Let_def length_last_items length_argsort split: if_splits)

text \<open>
  Claim C2, as the code has it. \<open>top_k\<close> is first clamped to the interval from 3 to 7. A
  call that returns gives at most 7 recommendations and at most
  \<open>min(clamped top_k, number of eligible postings)\<close>: on the primary path the eligible postings
  are those the gate admits, and the count is that minimum when the query embedding
  succeeds (and 0 when it fails); on the fallback path they are the postings whose
  similarity is above 0.4, and the count is that minimum. No lower bound of 3 on the
  count holds: it is smaller whenever fewer than 3 postings are eligible.
\<close>

theorem recommend_count:
  assumes "recommend E internships education skills location top_k = Inr results"
  shows "3 \<le> clamp_top_k top_k \<and> clamp_top_k top_k \<le> 7 \<and> length results \<le> 7 \<and>
    (\<forall>admitted. gate (strip skills) 0 internships = Inr admitted \<and> admitted \<noteq> [] \<longrightarrow>
       length results \<le> min (clamp_top_k top_k) (length admitted) \<and>
       (\<forall>q. embed_query E (primary_query (strip education) (strip skills) (strip location)) = Inr q
          \<longrightarrow> length results = min (clamp_top_k top_k) (length admitted))) \<and>
    (\<forall>q valid. gate (strip skills) 0 internships = Inr [] \<and>
       embed_query E (fallback_query (strip education) (strip skills)) = Inr q \<and>
       fallback_scan E q 0 internships = Inr valid \<longrightarrow>
       length results = min (clamp_top_k top_k) (length valid))"
proof -
  let ?k = "clamp_top_k top_k"
  have kb: "3 \<le> ?k" "?k \<le> 7" using clamp_top_k_bounds[of top_k] by auto
  have primary: "length results \<le> min ?k (length admitted) \<and>
       (\<forall>q. embed_query E (primary_query (strip education) (strip skills) (strip location)) = Inr q
          \<longrightarrow> length results = min ?k (length admitted))"
    if g: "gate (strip skills) 0 internships = Inr admitted" and ne: "admitted \<noteq> []" for admitted
  proof -
    have nonempty: "internships \<noteq> []" using g ne by auto
    obtain items where r: "rank_admitted E admitted (strip education) (strip skills) (strip location) ?k = Inr items"
      and res: "results = map make_result items"
      using assms g ne nonempty by (auto simp: recommend_def Let_def split: sum.splits)
    show ?thesis
      using length_rank_admitted_le[OF r] length_rank_admitted_eq[OF r] res by auto
  qed
  have fallback: "length results = min ?k (length valid)"
    if g: "gate (strip skills) 0 internships = Inr []"
      and q: "embed_query E (fallback_query (strip education) (strip skills)) = Inr q"
      and v: "fallback_scan E q 0 internships = Inr valid" for q valid
  proof (cases "internships = []")
    case True
    then show ?thesis using assms v by (simp add: recommend_def)
  next
    case False
    then obtain items where r: "fallback_rank E internships (strip education) (strip skills) (strip location) ?k = Inr items"
      and res: "results = map make_result items"
      using assms g
      by (auto simp: recommend_def Let_def semantic_fallback_recommendation_def split: sum.splits)
    have "0 < ?k" using kb by simp
    from length_fallback_rank[OF r q v this] res show ?thesis by simp
  qed
  have le7: "length results \<le> 7"
  proof (cases "internships = []")
    case True
    then show ?thesis using assms by (simp add: recommend_def)
  next
    case False
    then obtain admitted where g: "gate (strip skills) 0 internships = Inr admitted"
      using assms by (auto simp: recommend_def Let_def split: sum.splits)
    show ?thesis
    proof (cases "admitted = []")
      case False
      from primary[OF g False] kb show ?thesis by simp
    next
      case True
      with assms g \<open>internships \<noteq> []\<close> obtain items where
        r: "fallback_rank E internships (strip education) (strip skills) (strip location) ?k = Inr items"
        and res: "results = map make_result items"
        by (auto simp: recommend_def Let_def semantic_fallback_recommendation_def split: sum.splits)
      show ?thesis
      proof (cases "embed_query E (fallback_query (strip education) (strip skills))")
        case (Inl e)
        then show ?thesis using r res by (simp add: fallback_rank_def)
      next
        case (Inr q)
        then obtain valid where v: "fallback_scan E q 0 internships = Inr valid"
          using r by (auto simp: fallback_rank_def Let_def split: sum.splits)
        from fallback[OF _ Inr v] g True kb show ?thesis by simp
      qed
    qed
  qed
  show ?thesis using kb le7 primary fallback by blast
qed

text \<open>
  The theorem at a catalogue of two postings of which the gate admits one: one
  recommendation, the minimum of the clamped \<open>top_k\<close> 5 and the one admitted posting.
\<close>

theorem recommend_count_witness:
  "recommend sample_env [PDict java_dev, PDict cobol_dev] ''BSc'' ''java'' ''Pune'' 5
     = Inr [make_result
              (score_posting sample_env ''bsc'' ''pune''
                 (java_dev, \<lparr>original_index = 0, exact_matches = 1, partial_matches = 0,
                             relevance_score = 1\<rparr>) (1 / 2))]
   \<and> clamp_top_k 5 = 5
   \<and> length (projr (recommend sample_env [PDict java_dev, PDict cobol_dev] ''BSc'' ''java'' ''Pune'' 5))
       = min (clamp_top_k 5) 1"
proof -
  let ?r = "make_result
              (score_posting sample_env ''bsc'' ''pune''
                 (java_dev, \<lparr>original_index = 0, exact_matches = 1, partial_matches = 0,
                             relevance_score = 1\<rparr>) (1 / 2))"
  have e: "recommend sample_env [PDict java_dev, PDict cobol_dev] ''BSc'' ''java'' ''Pune'' 5 = Inr [?r]"
    by code_simp
  have g: "gate (strip ''java'') 0 [PDict java_dev, PDict cobol_dev]
     = Inr [(java_dev, \<lparr>original_index = 0, exact_matches = 1, partial_matches = 0,
                             relevance_score = 1\<rparr>)]"
    by code_simp
  have q: "embed_query sample_env (primary_query (strip ''BSc'') (strip ''java'') (strip ''Pune'')) = Inr [1, 0]"
    by (simp add: sample_env_def)
  have c: "clamp_top_k 5 = 5" by (simp add: clamp_top_k_def)
  from recommend_count[OF e] g q have "length [?r] = min (clamp_top_k 5) (length [(java_dev, \<lparr>original_index = 0, exact_matches = 1, partial_matches = 0,
                             relevance_score = 1::rat\<rparr>)])"
    by blast
  then show ?thesis using e c by simp
qed

text \<open>
  The claim as stated fails: a request for 5 recommendations over a catalogue whose only
  posting passes the gate returns one recommendation, fewer than 3.
\<close>

theorem recommend_single_posting:
  "\<not> isl (recommend sample_env [PDict java_dev] [] ''java'' [] 5)
   \<and> length (projr (recommend sample_env [PDict java_dev] [] ''java'' [] 5)) = 1
   \<and> \<not> 3 \<le> length (projr (recommend sample_env [PDict java_dev] [] ''java'' [] 5))"
  by code_simp

section \<open>The gate\<close>

text \<open>
  What the gate returns: the dictionaries of the catalogue that satisfy the gate's
  condition, in catalogue order, each with its position in the catalogue and the counts
  the scorer gave.
\<close>

lemma gate_admitted:
  "gate skills i ps = Inr admitted \<Longrightarrow>
     map fst admitted = filter (admits skills) (dict_entries ps) \<and>
     (\<forall>(d, r) \<in> set admitted.
        i \<le> original_index r \<and> original_index r < i + length ps \<and>
        ps ! (original_index r - i) = PDict d \<and>
        (\<exists>s. dget_default d ''skills'' (PStr []) = PStr s \<and>
             calculate_skill_relevance skills s
               = (exact_matches r, partial_matches r, relevance_score r)))"
proof (induction ps arbitrary: i admitted)
  case Nil
  then show ?case by simp
next
  case (Cons v rest)
  note IHr = Cons.IH
  show ?case
  proof (cases "\<exists>internship. v = PDict internship")
    case False
    then have g: "gate skills (i + 1) rest = Inr admitted"
      using Cons.prems by (cases v) auto
    have de: "dict_entries (v # rest) = dict_entries rest" using False by (cases v) auto
    have "\<forall>(d, r) \<in> set admitted.
        i \<le> original_index r \<and> original_index r < i + length (v # rest) \<and>
        (v # rest) ! (original_index r - i) = PDict d \<and>
        (\<exists>s. dget_default d ''skills'' (PStr []) = PStr s \<and>
             calculate_skill_relevance skills s
               = (exact_matches r, partial_matches r, relevance_score r))"
    proof (clarify)
      fix d r assume m: "(d, r) \<in> set admitted"
      with IHr[OF g] have a: "i + 1 \<le> original_index r" "original_index r < i + 1 + length rest"
        "rest ! (original_index r - (i + 1)) = PDict d"
        and b: "\<exists>s. dget_default d ''skills'' (PStr []) = PStr s \<and>
             calculate_skill_relevance skills s
               = (exact_matches r, partial_matches r, relevance_score r)"
        by auto
      from a(1) have n: "original_index r - i = Suc (original_index r - (i + 1))" by simp
      show "i \<le> original_index r \<and> original_index r < i + length (v # rest) \<and>
        (v # rest) ! (original_index r - i) = PDict d \<and>
        (\<exists>s. dget_default d ''skills'' (PStr []) = PStr s \<and>
             calculate_skill_relevance skills s
               = (exact_matches r, partial_matches r, relevance_score r))"
        using a b n by auto
    qed
    then show ?thesis using IHr[OF g] de by simp
  next
    case True
    then obtain internship where v: "v = PDict internship" by auto
  note prems = Cons.prems[unfolded v]
  from prems obtain s where s: "dget_default internship ''skills'' (PStr []) = PStr s"
    by (auto split: pyval.splits)
  obtain ex pa rel where c: "calculate_skill_relevance skills s = (ex, pa, rel)"
    by (cases "calculate_skill_relevance skills s") auto
  from prems s c obtain adm' where g': "gate skills (i + 1) rest = Inr adm'"
    by (auto split: sum.splits)
  note IH = IHr[OF g']
  have idx: "\<forall>(d, r) \<in> set adm'.
        i \<le> original_index r \<and> original_index r < i + length (PDict internship # rest) \<and>
        (PDict internship # rest) ! (original_index r - i) = PDict d \<and>
        (\<exists>s. dget_default d ''skills'' (PStr []) = PStr s \<and>
             calculate_skill_relevance skills s
               = (exact_matches r, partial_matches r, relevance_score r))"
  proof (clarify)
    fix d r assume m: "(d, r) \<in> set adm'"
    with IH have a: "i + 1 \<le> original_index r" "original_index r < i + 1 + length rest"
      "rest ! (original_index r - (i + 1)) = PDict d"
      and b: "\<exists>s. dget_default d ''skills'' (PStr []) = PStr s \<and>
             calculate_skill_relevance skills s
               = (exact_matches r, partial_matches r, relevance_score r)"
      by auto
    from a(1) have n: "original_index r - i = Suc (original_index r - (i + 1))" by simp
    show "i \<le> original_index r \<and> original_index r < i + length (PDict internship # rest) \<and>
        (PDict internship # rest) ! (original_index r - i) = PDict d \<and>
        (\<exists>s. dget_default d ''skills'' (PStr []) = PStr s \<and>
             calculate_skill_relevance skills s
               = (exact_matches r, partial_matches r, relevance_score r))"
      using a b n by auto
  qed
  show ?thesis
  proof (cases "ex > 0 \<or> pa \<ge> 2 \<or> rel > 2 / 10")
    case True
    then have adm: "admitted = (internship, \<lparr>original_index = i, exact_matches = ex,
                                partial_matches = pa, relevance_score = rel\<rparr>) # adm'"
      using prems s c g' by auto
    have "admits skills internship" using True s c by (simp add: admits_def)
    then show ?thesis using adm IH idx s c v by auto
  next
    case False
    then have adm: "admitted = adm'" using prems s c g' by auto
    have "\<not> admits skills internship" using False s c by (simp add: admits_def)
    then show ?thesis using adm IH idx v by auto
  qed
  qed
qed

text \<open>Reading the result dictionaries and the items of the primary path.\<close>

lemma dget_dset: "dget (dset k v d) k' = (if k' = k then Some v else dget d k')"
  by (simp add: dget_def dset_def update_conv')

lemma dget_ddel: "dget (ddel k d) k' = (if k' = k then None else dget d k')"
  by (simp add: dget_def ddel_def delete_conv')

lemma has_key_dget: "has_key d k \<longleftrightarrow> dget d k \<noteq> None"
  by (simp add: has_key_def dget_def)

lemma dget_make_result:
  "dget (make_result item) k =
     (if k = ''embedding'' then None
      else if k = ''match_details'' then Some (PDict (match_details item))
      else if k = ''score'' then Some (PFloat (score item))
      else dget (internship item) k)"
  by (auto simp: make_result_def Let_def dget_dset dget_ddel has_key_dget)

lemma score_posting_fields:
  "internship (score_posting E ue ul (d, r) b) = d"
  "origin (score_posting E ue ul (d, r) b) = original_index r"
  "dget (match_details (score_posting E ue ul (d, r) b)) ''fallback_recommendation'' = None"
  by (simp_all add: score_posting_def Let_def dget_def)

lemma rank_admitted_items:
  assumes "rank_admitted E admitted ed sk loc k = Inr items" and "item \<in> set items"
  shows "\<exists>(d, r) \<in> set admitted. internship item = d \<and> origin item = original_index r \<and>
           dget (match_details item) ''fallback_recommendation'' = None"
proof (cases "embed_query E (primary_query ed sk loc)")
  case (Inl e)
  then show ?thesis using assms by (simp add: rank_admitted_def)
next
  case (Inr q)
  then obtain sems where s: "semantic_scores E q admitted = Inr sems"
    and it: "items = take (min k (length admitted))
               (sort_key (\<lambda>x. - score x)
                  (map (\<lambda>(adm, base_score). score_posting E (lower ed) (lower loc) adm base_score)
                     (zip admitted sems)))"
    using assms(1) by (auto simp: rank_admitted_def Let_def split: sum.splits)
  from assms(2) it have "item \<in> set (map (\<lambda>(adm, base_score). score_posting E (lower ed) (lower loc) adm base_score)
                     (zip admitted sems))"
    by (auto dest: in_set_takeD)
  then obtain d r b where m: "((d, r), b) \<in> set (zip admitted sems)"
    and i: "item = score_posting E (lower ed) (lower loc) (d, r) b"
    by auto
  from m have "(d, r) \<in> set admitted" by (rule set_zip_leftD)
  then show ?thesis using i by (auto simp: score_posting_fields)
qed

text \<open>The gate returns whenever every posting's \<open>skills\<close> is a string (or is missing).\<close>

lemma gate_returns:
  "(\<forall>d \<in> set (dict_entries ps). \<exists>s. dget_default d ''skills'' (PStr []) = PStr s) \<Longrightarrow>
   \<exists>admitted. gate skills i ps = Inr admitted"
proof (induction ps arbitrary: i)
  case Nil
  then show ?case by simp
next
  case (Cons v ps)
  show ?case
  proof (cases v)
    case (PDict d)
    with Cons.prems obtain s where s: "dget_default d ''skills'' (PStr []) = PStr s" by auto
    from Cons.prems PDict have "\<forall>d \<in> set (dict_entries ps). \<exists>s. dget_default d ''skills'' (PStr []) = PStr s"
      by simp
    from Cons.IH[OF this, of "i + 1"] obtain adm where "gate skills (i + 1) ps = Inr adm" by auto
    then show ?thesis using PDict s by (auto split: prod.splits)
  qed (use Cons in auto)
qed

text \<open>
  Claim C3. The gate runs the scorer on every posting (dictionary) of the list it is
  given, so on every posting with an attached embedding, and admits a posting exactly
  when \<open>exactCount > 0\<close> or \<open>partialCount >= 2\<close> or \<open>relevanceScore > 0.2\<close>; the admitted postings
  keep their catalogue order. When the gate admits a posting, the call is the primary
  path: every item it ranks is a posting of the catalogue that the gate admitted, whatever
  the similarities, and carries no fallback mark. The call is the fallback exactly when the
  gate admits nothing.
\<close>

theorem gate_and_paths:
  assumes "gate (strip skills) 0 internships = Inr admitted"
  shows "map fst admitted = filter (admits (strip skills)) (dict_entries internships) \<and>
    (admitted \<noteq> [] \<longrightarrow>
       recommend E internships education skills location top_k =
         (case rank_admitted E admitted (strip education) (strip skills) (strip location)
                 (clamp_top_k top_k) of
            Inl e \<Rightarrow> Inl e
          | Inr items \<Rightarrow> Inr (map make_result items)) \<and>
       (\<forall>items. rank_admitted E admitted (strip education) (strip skills) (strip location)
                 (clamp_top_k top_k) = Inr items \<longrightarrow>
          (\<forall>item \<in> set items.
             admits (strip skills) (internship item) \<and>
             origin item < length internships \<and>
             internships ! origin item = PDict (internship item) \<and>
             dget (match_details item) ''fallback_recommendation'' = None))) \<and>
    (admitted = [] \<longrightarrow>
       recommend E internships education skills location top_k =
         (if internships = [] then Inr []
          else semantic_fallback_recommendation E internships (strip education) (strip skills)
                 (strip location) (clamp_top_k top_k)))"
proof -
  note g = gate_admitted[OF assms]
  have adm: "admits (strip skills) d" if "(d, r) \<in> set admitted" for d r
  proof -
    from that have "d \<in> set (map fst admitted)" by force
    then show ?thesis using g by simp
  qed
  have items: "admits (strip skills) (internship item) \<and>
             origin item < length internships \<and>
             internships ! origin item = PDict (internship item) \<and>
             dget (match_details item) ''fallback_recommendation'' = None"
    if r: "rank_admitted E admitted (strip education) (strip skills) (strip location)
                 (clamp_top_k top_k) = Inr items" and m: "item \<in> set items" for items item
  proof -
    from rank_admitted_items[OF r m] obtain d r where dr: "(d, r) \<in> set admitted"
      and f: "internship item = d" "origin item = original_index r"
        "dget (match_details item) ''fallback_recommendation'' = None"
      by auto
    from g dr have "original_index r < length internships"
      "internships ! original_index r = PDict d" by auto
    then show ?thesis using adm[OF dr] f by simp
  qed
  have ne: "internships \<noteq> []" if "admitted \<noteq> []"
    using that assms by auto
  have prim: "recommend E internships education skills location top_k =
         (case rank_admitted E admitted (strip education) (strip skills) (strip location)
                 (clamp_top_k top_k) of
            Inl e \<Rightarrow> Inl e
          | Inr items \<Rightarrow> Inr (map make_result items))" if "admitted \<noteq> []"
    using that ne assms by (simp add: recommend_def Let_def)
  have fb: "recommend E internships education skills location top_k =
         (if internships = [] then Inr []
          else semantic_fallback_recommendation E internships (strip education) (strip skills)
                 (strip location) (clamp_top_k top_k))" if "admitted = []"
    using that assms by (simp add: recommend_def Let_def)
  show ?thesis using g prim fb items by blast
qed

text \<open>
  The theorem at the specification's example: user skills \<open>java\<close>; the posting with
  skills \<open>java\<close> is admitted and returned, the posting with skills \<open>cobol\<close> is rejected and
  is not in the result.
\<close>

theorem gate_and_paths_witness:
  "gate (strip '' java '') 0 [PDict java_dev, PDict cobol_dev]
     = Inr [(java_dev, \<lparr>original_index = 0, exact_matches = 1, partial_matches = 0,
                          relevance_score = 1\<rparr>)]
   \<and> filter (admits (strip '' java '')) (dict_entries [PDict java_dev, PDict cobol_dev]) = [java_dev]
   \<and> \<not> admits (strip '' java '') cobol_dev
   \<and> recommend sample_env [PDict java_dev, PDict cobol_dev] ''BSc'' '' java '' ''Pune'' 5
       = Inr [make_result
                (score_posting sample_env ''bsc'' ''pune''
                   (java_dev, \<lparr>original_index = 0, exact_matches = 1, partial_matches = 0,
                               relevance_score = 1\<rparr>) (1 / 2))]"
proof -
  let ?r = "\<lparr>original_index = 0, exact_matches = 1, partial_matches = 0,
                          relevance_score = 1 :: rat\<rparr>"
  have g: "gate (strip '' java '') 0 [PDict java_dev, PDict cobol_dev] = Inr [(java_dev, ?r)]"
    by code_simp
  have r: "rank_admitted sample_env [(java_dev, ?r)] (strip ''BSc'') (strip '' java '') (strip ''Pune'')
             (clamp_top_k 5)
           = Inr [score_posting sample_env ''bsc'' ''pune'' (java_dev, ?r) (1 / 2)]"
    by code_simp
  have c: "\<not> admits (strip '' java '') cobol_dev" by code_simp
  from gate_and_paths[OF g, of sample_env "''BSc''" "''Pune''" 5] r
  have "map fst [(java_dev, ?r)] = filter (admits (strip '' java '')) (dict_entries [PDict java_dev, PDict cobol_dev])"
    and "recommend sample_env [PDict java_dev, PDict cobol_dev] ''BSc'' '' java '' ''Pune'' 5
       = Inr [make_result (score_posting sample_env ''bsc'' ''pune'' (java_dev, ?r) (1 / 2))]"
    by simp_all
  then show ?thesis using g c by simp
qed

section \<open>Scores and order of the primary path\<close>





text \<open>
  The rounding is that of doubles: 0.1 is \<open>3602879701896397 / 2 ^ 55\<close>, \<open>0.1 + 0.2\<close> is
  0.30000000000000004, \<open>0.15 * 3\<close> is 0.44999999999999996, an odd integer beyond \<open>2 ^ 53\<close>
  goes to the neighbour with the even mantissa, and the two
  boosts \<open>0.25 + 0.30 * 0 + 0.15 * 3\<close> and \<open>0.25 + 0.30 * 1 + 0.15 * 1\<close>, equal as exact sums,
  are 0.7 and 0.7000000000000001.
\<close>

lemma round_double_examples:
  "round_double (1 / 10) = 3602879701896397 / 36028797018963968"
  "fl_add (round_double (1 / 10)) (round_double (2 / 10)) = 1351079888211149 / 4503599627370496"
  "fl_mul (round_double (15 / 100)) (float_of_nat 3) = 2026619832316723 / 4503599627370496"
  "round_double (- 1 / 3) = - 6004799503160661 / 18014398509481984"
  "round_double (2 ^ 53 + 1) = 2 ^ 53"
  "round_double (2 ^ 53 + 3) = 2 ^ 53 + 4"
  "round_double (1 / 4) = 1 / 4"
  by code_simp+

lemma boost_sum_examples:
  "boost_sum True 0 3 False = 3152519739159347 / 4503599627370496"
  "boost_sum True 1 1 False = 6305039478318695 / 9007199254740992"
  "boost_sum True 0 3 False < boost_sum True 1 1 False"
  by code_simp+



section \<open>The fallback ranker\<close>

text \<open>
  What the scan of the fallback keeps: the dictionaries of the catalogue whose similarity
  is above 0.4, in catalogue order, each with that similarity and its position.
\<close>

lemma fallback_scan_valid:
  "fallback_scan E q i ps = Inr valid \<Longrightarrow>
     map (\<lambda>(s, j, d). d) valid = filter (survives E q) (dict_entries ps) \<and>
     (\<forall>(s, j, d) \<in> set valid.
        fallback_similarity E q d = Some s \<and> s > 4 / 10 \<and>
        i \<le> j \<and> j < i + length ps \<and> ps ! (j - i) = PDict d)"
proof (induction ps arbitrary: i valid)
  case Nil
  then show ?case by simp
next
  case (Cons v rest)
  note IHr = Cons.IH
  have shift: "\<forall>(s, j, d) \<in> set valid'.
        fallback_similarity E q d = Some s \<and> s > 4 / 10 \<and>
        i \<le> j \<and> j < i + length (v # rest) \<and> (v # rest) ! (j - i) = PDict d"
    if "\<forall>(s, j, d) \<in> set valid'.
        fallback_similarity E q d = Some s \<and> s > 4 / 10 \<and>
        i + 1 \<le> j \<and> j < i + 1 + length rest \<and> rest ! (j - (i + 1)) = PDict d" for valid'
  proof (clarify)
    fix s j d assume m: "(s, j, d) \<in> set valid'"
    with that have a: "fallback_similarity E q d = Some s" "s > 4 / 10"
      "i + 1 \<le> j" "j < i + 1 + length rest" "rest ! (j - (i + 1)) = PDict d"
      by auto
    from a(3) have n: "j - i = Suc (j - (i + 1))" by simp
    show "fallback_similarity E q d = Some s \<and> s > 4 / 10 \<and>
        i \<le> j \<and> j < i + length (v # rest) \<and> (v # rest) ! (j - i) = PDict d"
      using a n by auto
  qed
  show ?case
  proof (cases "\<exists>posting. v = PDict posting")
    case False
    then have g: "fallback_scan E q (i + 1) rest = Inr valid"
      using Cons.prems by (cases v) auto
    have de: "dict_entries (v # rest) = dict_entries rest" using False by (cases v) auto
    from IHr[OF g] shift[of valid] de show ?thesis by simp
  next
    case True
    then obtain posting where v: "v = PDict posting" by auto
    let ?emb = "dget_default posting ''embedding'' (PList [])"
    from Cons.prems v obtain n valid' where
      n: "np_size E ?emb = Inr n"
      and r: "fallback_scan E q (i + 1) rest = Inr valid'"
      and val: "valid = (if n = 0 then valid'
                  else (case cosine_similarity E q ?emb of
                          Inl e \<Rightarrow> valid'
                        | Inr sim \<Rightarrow> if sim > 4 / 10 then (sim, i, posting) # valid' else valid'))"
      by (auto simp: Let_def split: sum.splits if_splits)
    note IH = IHr[OF r]
    have fs: "fallback_similarity E q posting =
        (if n = 0 then None
         else (case cosine_similarity E q ?emb of Inl e \<Rightarrow> None | Inr sim \<Rightarrow> Some sim))"
    proof (cases "dget posting ''embedding''")
      case None
      then have "?emb = PList []" by (simp add: dget_def dget_default_def)
      then have "n = 0" using n by (simp add: np_size_def)
      then show ?thesis using None by (simp add: fallback_similarity_def)
    next
      case (Some emb)
      then have "?emb = emb" by (simp add: dget_def dget_default_def)
      then show ?thesis using Some n by (auto simp: fallback_similarity_def)
    qed
    show ?thesis
    proof (cases "survives E q posting")
      case True
      then obtain sim where sim: "fallback_similarity E q posting = Some sim" "sim > 4 / 10"
        by (auto simp: survives_def split: option.splits)
      with fs val have valid: "valid = (sim, i, posting) # valid'"
        by (auto split: if_splits sum.splits)
      show ?thesis using valid IH shift[of valid'] True sim v by auto
    next
      case False
      with fs val have valid: "valid = valid'"
        by (auto simp: survives_def split: if_splits sum.splits)
      show ?thesis using valid IH shift[of valid'] False v by auto
    qed
  qed
qed

lemma argsort_props:
  "distinct (argsort xs)" "set (argsort xs) = {0..<length xs}"
  "sorted (map (\<lambda>i. xs ! i) (argsort xs))"
  by (simp_all add: argsort_def)





section \<open>Failure of the embedding provider\<close>

text \<open>
  Claim C7. When the gate admits a posting and the query embedding raises, the ranking
  call returns the empty list. When the provider raises on the batch of missing texts,
  the fill raises that exception to its caller, and the cache it was given is as it was:
  nothing was merged.
\<close>

theorem provider_failure_aborts:
  "(gate (strip skills) 0 ps = Inr admitted \<and> admitted \<noteq> [] \<and>
      embed_query E (primary_query (strip education) (strip skills) (strip location)) = Inl e
      \<longrightarrow> recommend E ps education skills location top_k = Inr []) \<and>
   (ps \<noteq> [] \<and> collect_missing E ps c = Inr (docs, ids) \<and> docs \<noteq> [] \<and>
      embed_documents E docs = Inl e
      \<longrightarrow> precompute_doc_embeddings_new E ps (Some c)
            = \<lparr>returned = Inl e, final_cache = c, provider_calls = [docs]\<rparr>)"
proof (intro conjI impI)
  assume a: "gate (strip skills) 0 ps = Inr admitted \<and> admitted \<noteq> [] \<and>
      embed_query E (primary_query (strip education) (strip skills) (strip location)) = Inl e"
  then have "ps \<noteq> []" by auto
  with a show "recommend E ps education skills location top_k = Inr []"
    by (simp add: recommend_def Let_def rank_admitted_def)
next
  assume "ps \<noteq> [] \<and> collect_missing E ps c = Inr (docs, ids) \<and> docs \<noteq> [] \<and>
      embed_documents E docs = Inl e"
  then show "precompute_doc_embeddings_new E ps (Some c)
            = \<lparr>returned = Inl e, final_cache = c, provider_calls = [docs]\<rparr>"
    by (simp add: precompute_doc_embeddings_new_def)
qed

text \<open>
  The theorem with a provider that is down: the ranking of a catalogue with an admitted
  posting is empty, and a fill that has one text to embed raises and leaves the cache of
  one entry as it was.
\<close>

theorem provider_failure_aborts_witness:
  "recommend failing_env [PDict java_dev, PDict cobol_dev] ''BSc'' ''java'' ''Pune'' 5 = Inr []
   \<and> precompute_doc_embeddings_new failing_env [PDict java_dev, PDict analyst]
         (Some [(''p1'', [1, 0])])
       = \<lparr>returned = Inl (ProviderError ''down''),
          final_cache = [(''p1'', [1, 0])],
          provider_calls = [[''Position: Data Analyst Company: Acme Education Required:  Required Skills: sql, excel Industry Sector:  Work Location:  Description:'']]\<rparr>"
proof -
  let ?r = "\<lparr>original_index = 0, exact_matches = 1, partial_matches = 0,
                          relevance_score = 1 :: rat\<rparr>"
  let ?doc = "''Position: Data Analyst Company: Acme Education Required:  Required Skills: sql, excel Industry Sector:  Work Location:  Description:''"
  have g: "gate (strip ''java'') 0 [PDict java_dev, PDict cobol_dev] = Inr [(java_dev, ?r)]"
    by code_simp
  have q: "embed_query failing_env (primary_query (strip ''BSc'') (strip ''java'') (strip ''Pune''))
             = Inl (ProviderError ''down'')"
    by (simp add: failing_env_def)
  have c: "collect_missing failing_env [PDict java_dev, PDict analyst] [(''p1'', [1, 0])]
             = Inr ([?doc], [''data_analyst_acme''])"
    by code_simp
  have d: "embed_documents failing_env [?doc] = Inl (ProviderError ''down'')"
    by (simp add: failing_env_def)
  have a: "recommend failing_env [PDict java_dev, PDict cobol_dev] ''BSc'' ''java'' ''Pune'' 5 = Inr []"
    using provider_failure_aborts[of "''java''" "[PDict java_dev, PDict cobol_dev]" "[(java_dev, ?r)]"
             failing_env "''BSc''" "''Pune''" "ProviderError ''down''" 5] g q
    by simp
  have b: "precompute_doc_embeddings_new failing_env [PDict java_dev, PDict analyst]
         (Some [(''p1'', [1, 0])])
       = \<lparr>returned = Inl (ProviderError ''down''),
          final_cache = [(''p1'', [1, 0])],
          provider_calls = [[?doc]]\<rparr>"
    using provider_failure_aborts[of _ "[PDict java_dev, PDict analyst]" _ failing_env _ _
            "ProviderError ''down''" _ "[(''p1'', [1, 0])]" "[?doc]" "[''data_analyst_acme'']"] c d
    by simp
  show ?thesis by (intro conjI, rule a, rule b)
qed

section \<open>Filling the cache\<close>

text \<open>
  The texts the fill sends to the provider belong to postings whose identifier is not in
  the cache. Storing the returned vectors adds exactly the identifiers it asked for, and a
  second pass over the catalogue then finds nothing to compute.
\<close>

lemma collect_missing_absent:
  "collect_missing E ps c = Inr (docs, ids) \<Longrightarrow>
     length docs = length ids \<and>
     (\<forall>(text, k) \<in> set (zip docs ids).
        \<not> in_cache c k \<and>
        (\<exists>d \<in> set (dict_entries ps). k = get_internship_id E d \<and> get_internship_text E d = Inr text))"
proof (induction ps arbitrary: docs ids)
  case Nil
  then show ?case by simp
next
  case (Cons v rest)
  show ?case
  proof (cases "\<exists>d. v = PDict d")
    case False
    then have "collect_missing E rest c = Inr (docs, ids)"
      and "dict_entries (v # rest) = dict_entries rest"
      using Cons.prems by (cases v; simp)+
    then show ?thesis using Cons.IH by simp
  next
    case True
    then obtain d where v: "v = PDict d" by auto
    show ?thesis
    proof (cases "in_cache c (get_internship_id E d)")
      case True
      then have "collect_missing E rest c = Inr (docs, ids)"
        using Cons.prems v by (simp add: Let_def)
      then show ?thesis using Cons.IH v by auto
    next
      case False
      with Cons.prems v obtain doc docs' ids' where
        t: "get_internship_text E d = Inr doc"
        and r: "collect_missing E rest c = Inr (docs', ids')"
        and res: "(docs, ids) = (if doc \<noteq> [] then (doc # docs', get_internship_id E d # ids')
                                 else (docs', ids'))"
        by (auto simp: Let_def split: sum.splits prod.splits if_splits)
      from Cons.IH[OF r] res False t v show ?thesis
        by (cases "doc = []") auto
    qed
  qed
qed

lemma in_cache_update: "in_cache (AList.update k v c) k' \<longleftrightarrow> k' = k \<or> in_cache c k'"
  by (simp add: in_cache_def update_conv')

lemma merge_new_in_cache:
  "merge_new ids vs c = (c1, None) \<Longrightarrow> length vs = length ids \<Longrightarrow>
     in_cache c1 k \<longleftrightarrow> k \<in> set ids \<or> in_cache c k"
proof (induction ids vs c arbitrary: c1 rule: merge_new.induct)
  case (1 ids existing)
  then show ?case by simp
next
  case (2 v vs existing)
  then show ?case by simp
next
  case (3 i ids v vs existing)
  then show ?case by (auto simp: in_cache_update)
qed

lemma collect_missing_again:
  "collect_missing E ps c = Inr (docs, ids) \<Longrightarrow>
   (\<forall>k. in_cache c k \<longrightarrow> in_cache c' k) \<Longrightarrow>
   (\<forall>k \<in> set ids. in_cache c' k) \<Longrightarrow>
   collect_missing E ps c' = Inr ([], [])"
proof (induction ps arbitrary: docs ids)
  case Nil
  then show ?case by simp
next
  case (Cons v rest)
  show ?case
  proof (cases "\<exists>d. v = PDict d")
    case False
    then have "collect_missing E rest c = Inr (docs, ids)"
      and e: "collect_missing E (v # rest) c' = collect_missing E rest c'"
      using Cons.prems(1) by (cases v; simp)+
    then show ?thesis using Cons.IH Cons.prems(2,3) by simp
  next
    case True
    then obtain d where v: "v = PDict d" by auto
    let ?k = "get_internship_id E d"
    show ?thesis
    proof (cases "in_cache c ?k")
      case True
      then have r: "collect_missing E rest c = Inr (docs, ids)"
        using Cons.prems(1) v by (simp add: Let_def)
      have "in_cache c' ?k" using True Cons.prems(2) by simp
      then show ?thesis using Cons.IH[OF r Cons.prems(2,3)] v by (simp add: Let_def)
    next
      case False
      with Cons.prems(1) v obtain doc docs' ids' where
        t: "get_internship_text E d = Inr doc"
        and r: "collect_missing E rest c = Inr (docs', ids')"
        and res: "(docs, ids) = (if doc \<noteq> [] then (doc # docs', ?k # ids')
                                 else (docs', ids'))"
        by (auto simp: Let_def split: sum.splits prod.splits if_splits)
      have sub: "\<forall>k \<in> set ids'. in_cache c' k" using res Cons.prems(3) by (auto split: if_splits)
      note IH = Cons.IH[OF r Cons.prems(2) sub]
      show ?thesis
      proof (cases "doc = []")
        case True
        then show ?thesis using IH t v by (simp add: Let_def)
      next
        case False
        then have "?k \<in> set ids" using res by simp
        then have "in_cache c' ?k" using Cons.prems(3) by simp
        then show ?thesis using IH v by (simp add: Let_def)
      qed
    qed
  qed
qed

lemma collect_missing_complete:
  "(\<forall>d \<in> set (dict_entries ps). in_cache c (get_internship_id E d)) \<Longrightarrow>
   collect_missing E ps c = Inr ([], [])"
proof (induction ps)
  case Nil
  then show ?case by simp
next
  case (Cons v rest)
  then show ?case by (cases v) (simp_all add: Let_def)
qed

text \<open>
  Claim C9. The one batch a fill sends to the provider holds texts of postings whose
  identifier is absent from the cache it was given, and there is no batch when nothing is
  missing. On a cache that has the identifier of every posting, the fill calls the provider
  not at all and returns the cache unchanged. With a provider that returns one vector for
  every text, a fill that returns a cache, run again on the same catalogue with that cache,
  calls the provider not at all and returns that cache unchanged.
\<close>

theorem fill_idempotent:
  "(collect_missing E ps c = Inr (docs, ids) \<longrightarrow>
      provider_calls (precompute_doc_embeddings_new E ps (Some c))
        = (if ps = [] \<or> docs = [] then [] else [docs]) \<and>
      length docs = length ids \<and>
      (\<forall>(text, k) \<in> set (zip docs ids).
         \<not> in_cache c k \<and>
         (\<exists>d \<in> set (dict_entries ps).
            k = get_internship_id E d \<and> get_internship_text E d = Inr text))) \<and>
   ((\<forall>d \<in> set (dict_entries ps). in_cache c (get_internship_id E d)) \<longrightarrow>
      precompute_doc_embeddings_new E ps (Some c)
        = \<lparr>returned = Inr c, final_cache = c, provider_calls = []\<rparr>) \<and>
   (returned (precompute_doc_embeddings_new E ps (Some c)) = Inr c1 \<and>
    (\<forall>texts vs. embed_documents E texts = Inr vs \<longrightarrow> length vs = length texts) \<longrightarrow>
      precompute_doc_embeddings_new E ps (Some c1)
        = \<lparr>returned = Inr c1, final_cache = c1, provider_calls = []\<rparr>)"
proof -
  have A: "collect_missing E ps c = Inr (docs, ids) \<longrightarrow>
      provider_calls (precompute_doc_embeddings_new E ps (Some c))
        = (if ps = [] \<or> docs = [] then [] else [docs]) \<and>
      length docs = length ids \<and>
      (\<forall>(text, k) \<in> set (zip docs ids).
         \<not> in_cache c k \<and>
         (\<exists>d \<in> set (dict_entries ps).
            k = get_internship_id E d \<and> get_internship_text E d = Inr text))"
  proof
    assume cm: "collect_missing E ps c = Inr (docs, ids)"
    have "provider_calls (precompute_doc_embeddings_new E ps (Some c))
        = (if ps = [] \<or> docs = [] then [] else [docs])"
      using cm by (auto simp: precompute_doc_embeddings_new_def split: sum.splits prod.splits option.splits)
    then show "provider_calls (precompute_doc_embeddings_new E ps (Some c))
        = (if ps = [] \<or> docs = [] then [] else [docs]) \<and>
      length docs = length ids \<and>
      (\<forall>(text, k) \<in> set (zip docs ids).
         \<not> in_cache c k \<and>
         (\<exists>d \<in> set (dict_entries ps).
            k = get_internship_id E d \<and> get_internship_text E d = Inr text))"
      using collect_missing_absent[OF cm] by simp
  qed
  have B: "(\<forall>d \<in> set (dict_entries ps). in_cache c (get_internship_id E d)) \<longrightarrow>
      precompute_doc_embeddings_new E ps (Some c)
        = \<lparr>returned = Inr c, final_cache = c, provider_calls = []\<rparr>"
    by (auto simp: precompute_doc_embeddings_new_def collect_missing_complete)
  have C: "returned (precompute_doc_embeddings_new E ps (Some c)) = Inr c1 \<and>
    (\<forall>texts vs. embed_documents E texts = Inr vs \<longrightarrow> length vs = length texts) \<longrightarrow>
      precompute_doc_embeddings_new E ps (Some c1)
        = \<lparr>returned = Inr c1, final_cache = c1, provider_calls = []\<rparr>"
  proof
    assume h: "returned (precompute_doc_embeddings_new E ps (Some c)) = Inr c1 \<and>
      (\<forall>texts vs. embed_documents E texts = Inr vs \<longrightarrow> length vs = length texts)"
    show "precompute_doc_embeddings_new E ps (Some c1)
        = \<lparr>returned = Inr c1, final_cache = c1, provider_calls = []\<rparr>"
    proof (cases "ps = []")
      case True
      then show ?thesis by (simp add: precompute_doc_embeddings_new_def)
    next
      case False
      with h obtain docs' ids' where cm: "collect_missing E ps c = Inr (docs', ids')"
        by (auto simp: precompute_doc_embeddings_new_def split: sum.splits)
      have again: "collect_missing E ps c1 = Inr ([], [])"
      proof (cases "docs' = []")
        case True
        then have "c1 = c" using h cm False by (simp add: precompute_doc_embeddings_new_def)
        moreover have "ids' = []" using collect_missing_absent[OF cm] True by simp
        ultimately show ?thesis using collect_missing_again[OF cm, of c] by simp
      next
        case ne: False
        with h cm \<open>ps \<noteq> []\<close> obtain vs where
          ed: "embed_documents E docs' = Inr vs" and m: "merge_new ids' vs c = (c1, None)"
          by (auto simp: precompute_doc_embeddings_new_def split: sum.splits prod.splits option.splits)
        have "length vs = length ids'"
          using h ed collect_missing_absent[OF cm] by auto
        note ic = merge_new_in_cache[OF m this]
        show ?thesis using collect_missing_again[OF cm, of c1] ic by simp
      qed
      then show ?thesis using False by (simp add: precompute_doc_embeddings_new_def)
    qed
  qed
  show ?thesis by (intro conjI, rule A, rule B, rule C)
qed

text \<open>
  The theorem on a catalogue of two postings: the fill of the empty cache returns a cache
  of two entries, the fill with that cache sends nothing and returns it, and the fill of a
  cache that has the second posting only sends the text of the first.
\<close>

theorem fill_idempotent_witness:
  "returned (precompute_doc_embeddings_new sample_env [PDict analyst, PDict java_dev] (Some []))
     = Inr [(''data_analyst_acme'', [1, 0]), (''p1'', [1, 0])]
   \<and> precompute_doc_embeddings_new sample_env [PDict analyst, PDict java_dev]
         (Some [(''data_analyst_acme'', [1, 0]), (''p1'', [1, 0])])
       = \<lparr>returned = Inr [(''data_analyst_acme'', [1, 0]), (''p1'', [1, 0])],
          final_cache = [(''data_analyst_acme'', [1, 0]), (''p1'', [1, 0])],
          provider_calls = []\<rparr>
   \<and> \<not> in_cache [(''p1'', [1, 0])] ''data_analyst_acme''
   \<and> provider_calls (precompute_doc_embeddings_new sample_env [PDict analyst, PDict java_dev]
         (Some [(''p1'', [1, 0])]))
       = [[''Position: Data Analyst Company: Acme Education Required:  Required Skills: sql, excel Industry Sector:  Work Location:  Description:'']]"
proof -
  let ?ps = "[PDict analyst, PDict java_dev]"
  let ?c1 = "[(''data_analyst_acme'', [1, 0 :: rat]), (''p1'', [1, 0])]"
  let ?doc = "''Position: Data Analyst Company: Acme Education Required:  Required Skills: sql, excel Industry Sector:  Work Location:  Description:''"
  have first: "returned (precompute_doc_embeddings_new sample_env ?ps (Some [])) = Inr ?c1"
    by code_simp
  have prov: "\<forall>texts vs. embed_documents sample_env texts = Inr vs \<longrightarrow> length vs = length texts"
    by (auto simp: sample_env_def)
  have cm: "collect_missing sample_env ?ps [(''p1'', [1, 0])] = Inr ([?doc], [''data_analyst_acme''])"
    by code_simp
  have second: "precompute_doc_embeddings_new sample_env ?ps (Some ?c1)
       = \<lparr>returned = Inr ?c1, final_cache = ?c1, provider_calls = []\<rparr>"
    using fill_idempotent[of sample_env ?ps "[]" "[]" "[]" ?c1] first prov by blast
  have third: "provider_calls (precompute_doc_embeddings_new sample_env ?ps (Some [(''p1'', [1, 0])]))
                 = [[?doc]] \<and> \<not> in_cache [(''p1'', [1, 0])] ''data_analyst_acme''"
    using fill_idempotent[of sample_env ?ps "[(''p1'', [1, 0])]" "[?doc]" "[''data_analyst_acme'']" ?c1] cm
    by simp
  show ?thesis using first second third by simp
qed

section \<open>Checking the catalogue for changes\<close>




section \<open>The inputs of the ranking are not written\<close>

text \<open>
  One pass of the result loop appends one new dictionary to the store, the finished
  result, and writes nowhere else; the loop as a whole appends the results in order.
\<close>

lemma update_dict_last:
  "update_dict (h @ [PDict d]) (length h) f = h @ [PDict (f d)]"
  by (simp add: update_dict_def deref_def)

lemma has_key_at_last: "has_key_at (h @ [PDict d]) (length h) k = has_key d k"
  by (simp add: has_key_at_def deref_def)

lemma build_results_step_any:
  assumes "posting_at h refs (origin item) = PDict d"
  shows "build_results h refs (item # items) results
           = build_results (h @ [PDict (make_result (item\<lparr>internship := d\<rparr>))]) refs items
               (results @ [length h])"
  using assms
  by (simp add: Let_def update_dict_last has_key_at_last make_result_def)

lemma build_results_step:
  assumes "posting_at h refs (origin item) = PDict (internship item)"
  shows "build_results h refs (item # items) results
           = build_results (h @ [PDict (make_result item)]) refs items (results @ [length h])"
  using build_results_step_any[OF assms] by simp

lemma posting_at_append:
  "posting_at h refs i = PDict d \<Longrightarrow> posting_at (h @ [x]) refs i = PDict d"
  by (auto simp: posting_at_def deref_def nth_append split: if_splits)

lemma build_results_run:
  "\<forall>item \<in> set items. posting_at h refs (origin item) = PDict (internship item) \<Longrightarrow>
   build_results h refs items results
     = (h @ map (\<lambda>item. PDict (make_result item)) items,
        Inr (results @ [length h..<length h + length items]))"
proof (induction items arbitrary: h results)
  case Nil
  then show ?case by simp
next
  case (Cons item items)
  have p: "posting_at h refs (origin item) = PDict (internship item)"
    using Cons.prems by simp
  have rest: "\<forall>it \<in> set items.
     posting_at (h @ [PDict (make_result item)]) refs (origin it) = PDict (internship it)"
    using Cons.prems by (simp add: posting_at_append)
  have up: "[length h..<length h + length (item # items)]
             = length h # [length h + 1..<length h + 1 + length items]"
    by (simp add: upt_rec)
  show ?case
    unfolding build_results_step[OF p] Cons.IH[OF rest] up by simp
qed

lemma build_results_frame:
  "build_results h refs items results = (h', r) \<Longrightarrow> take (length h) h' = h"
proof (induction items arbitrary: h results)
  case Nil
  then show ?case by simp
next
  case (Cons item items)
  show ?case
  proof (cases "\<exists>d. posting_at h refs (origin item) = PDict d")
    case False
    then have "h' = h" using Cons.prems by (auto split: pyval.splits)
    then show ?thesis by simp
  next
    case True
    then obtain d where d: "posting_at h refs (origin item) = PDict d" by auto
    define x where "x = PDict (make_result (item\<lparr>internship := d\<rparr>))"
    have "build_results (h @ [x]) refs items (results @ [length h]) = (h', r)"
      using Cons.prems unfolding build_results_step_any[OF d] x_def .
    from Cons.IH[OF this] have t: "take (length h + 1) h' = h @ [x]" by simp
    have "take (length h) h' = take (length h) (take (length h + 1) h')" by simp
    also have "\<dots> = h" unfolding t by simp
    finally show ?thesis .
  qed
qed

lemma posting_at_map_deref:
  "i < length refs \<Longrightarrow> map (deref h) refs ! i = PDict d \<Longrightarrow> posting_at h refs i = PDict d"
  by (simp add: posting_at_def)

lemma fallback_rank_items:
  assumes "fallback_rank E ps ed sk loc k = Inr items" and "item \<in> set items"
  shows "origin item < length ps \<and> ps ! origin item = PDict (internship item)"
proof (cases "embed_query E (fallback_query ed sk)")
  case (Inl e)
  then show ?thesis using assms by (simp add: fallback_rank_def)
next
  case (Inr q)
  then obtain valid where v: "fallback_scan E q 0 ps = Inr valid"
    using assms(1) by (auto simp: fallback_rank_def Let_def split: sum.splits)
  show ?thesis
  proof (cases "valid = []")
    case True
    then show ?thesis using assms Inr v by (simp add: fallback_rank_def)
  next
    case False
    let ?idx = "rev (last_items (min k (length valid)) (argsort (map fst valid)))"
    have items: "items = map (\<lambda>idx. fallback_item (valid ! idx)) ?idx"
      using assms(1) Inr v False by (simp add: fallback_rank_def Let_def)
    have "set ?idx \<subseteq> set (argsort (map fst valid))"
      by (auto simp: last_items_def dest: in_set_dropD)
    also have "\<dots> = {0..<length valid}" by (simp add: argsort_props(2))
    finally have sub: "set ?idx \<subseteq> {0..<length valid}" .
    from assms(2) items obtain j where j: "j \<in> set ?idx" and it: "item = fallback_item (valid ! j)"
      by auto
    from subsetD[OF sub j] have "valid ! j \<in> set valid" by simp
    moreover obtain s i d where vj: "valid ! j = (s, i, d)" by (cases "valid ! j")
    ultimately have "i < length ps \<and> ps ! i = PDict d"
      using fallback_scan_valid[OF v] by auto
    then show ?thesis using it vj by (simp add: fallback_item_def)
  qed
qed

text \<open>
  With the catalogue in a store, both ranking functions leave every object of the store
  they were given as it was, return addresses of new objects, and these objects are the
  dictionaries the functions on values return.
\<close>

lemma deref_new_objects:
  "map (deref (h @ xs)) [length h..<length h + length xs] = xs"
proof (rule nth_equalityI)
  show "length (map (deref (h @ xs)) [length h..<length h + length xs]) = length xs" by simp
next
  fix i assume "i < length (map (deref (h @ xs)) [length h..<length h + length xs])"
  then have "i < length xs" by simp
  then show "map (deref (h @ xs)) [length h..<length h + length xs] ! i = xs ! i"
    by (simp add: deref_def nth_append)
qed

lemma store_run:
  assumes "\<forall>item \<in> set items. posting_at h refs (origin item) = PDict (internship item)"
    and "build_results h refs items [] = (h', r)"
  shows "take (length h) h' = h \<and>
         (\<exists>results. r = Inr results \<and>
            (\<forall>a \<in> set results. length h \<le> a \<and> a < length h') \<and>
            map (deref h') results = map PDict (map make_result items))"
proof -
  let ?new = "map (\<lambda>item. PDict (make_result item)) items"
  from build_results_run[OF assms(1), of "[]"] assms(2)
  have h': "h' = h @ ?new" and r: "r = Inr [length h..<length h + length items]"
    by simp_all
  have "map (deref h') [length h..<length h + length items] = ?new"
    using deref_new_objects[of h ?new] h' by simp
  then have m: "map (deref h') [length h..<length h + length items] = map PDict (map make_result items)"
    by simp
  have b: "\<forall>a \<in> set [length h..<length h + length items]. length h \<le> a \<and> a < length h'"
    using h' by simp
  show ?thesis using h' r m b by simp
qed

lemma frame_deref: "take (length h) h' = h \<Longrightarrow> a < length h \<Longrightarrow> deref h' a = deref h a"
proof -
  assume t: "take (length h) h' = h" and a: "a < length h"
  have "length (take (length h) h') = length h" using t by simp
  then have "length h \<le> length h'" by simp
  moreover have "h' ! a = h ! a" using t a by (metis nth_take)
  ultimately show ?thesis using a by (simp add: deref_def)
qed

lemma ranked_items_in_catalogue:
  assumes "gate skills 0 ps = Inr admitted"
    and "rank_admitted E admitted ed skills loc k = Inr items"
    and "item \<in> set items"
  shows "origin item < length ps \<and> ps ! origin item = PDict (internship item)"
proof -
  from rank_admitted_items[OF assms(2,3)] obtain d r where dr: "(d, r) \<in> set admitted"
    and f: "internship item = d" "origin item = original_index r"
    by auto
  from gate_admitted[OF assms(1)] dr have "original_index r < length ps"
    "ps ! original_index r = PDict d" by auto
  then show ?thesis using f by simp
qed

lemma fallback_in_store_spec:
  assumes "fallback_in_store E h refs education skills location k = (h', r)"
  shows "take (length h) h' = h \<and>
      (\<forall>e. r = Inl e \<longrightarrow>
         semantic_fallback_recommendation E (map (deref h) refs) education skills location k = Inl e) \<and>
      (\<forall>results. r = Inr results \<longrightarrow>
         (\<forall>a \<in> set results. length h \<le> a \<and> a < length h') \<and>
         (\<exists>rs. semantic_fallback_recommendation E (map (deref h) refs) education skills location k
                  = Inr rs \<and>
               map (deref h') results = map PDict rs \<and>
               (\<forall>d \<in> set rs.
                  dget d ''embedding'' = None \<and>
                  (\<exists>s. dget d ''score'' = Some (PFloat s)) \<and>
                  (\<exists>m. dget d ''match_details'' = Some (PDict m)))))"
proof (cases "fallback_rank E (map (deref h) refs) education skills location k")
  case (Inl e)
  then show ?thesis using assms
    by (auto simp: fallback_in_store_def semantic_fallback_recommendation_def)
next
  case (Inr items)
  then have b: "build_results h refs items [] = (h', r)"
    using assms by (simp add: fallback_in_store_def)
  have ok: "\<forall>item \<in> set items. posting_at h refs (origin item) = PDict (internship item)"
  proof
    fix item assume "item \<in> set items"
    from fallback_rank_items[OF Inr this]
    show "posting_at h refs (origin item) = PDict (internship item)"
      by (auto simp: posting_at_def)
  qed
  have p: "semantic_fallback_recommendation E (map (deref h) refs) education skills location k
             = Inr (map make_result items)"
    using Inr by (simp add: semantic_fallback_recommendation_def)
  from store_run[OF ok b] p show ?thesis by (auto simp: dget_make_result)
qed

lemma recommend_in_store_spec:
  assumes "recommend_in_store E h refs education skills location top_k = (h', r)"
  shows "take (length h) h' = h \<and>
      (\<forall>e. r = Inl e \<longrightarrow>
         recommend E (map (deref h) refs) education skills location top_k = Inl e) \<and>
      (\<forall>results. r = Inr results \<longrightarrow>
         (\<forall>a \<in> set results. length h \<le> a \<and> a < length h') \<and>
         (\<exists>rs. recommend E (map (deref h) refs) education skills location top_k = Inr rs \<and>
               map (deref h') results = map PDict rs \<and>
               (\<forall>d \<in> set rs.
                  dget d ''embedding'' = None \<and>
                  (\<exists>s. dget d ''score'' = Some (PFloat s)) \<and>
                  (\<exists>m. dget d ''match_details'' = Some (PDict m)))))"
proof (cases "map (deref h) refs = []")
  case True
  then show ?thesis using assms by (auto simp: recommend_in_store_def recommend_def)
next
  case ne: False
  let ?ps = "map (deref h) refs"
  show ?thesis
  proof (cases "gate (strip skills) 0 ?ps")
    case (Inl e)
    then show ?thesis using assms ne
      by (auto simp: recommend_in_store_def recommend_def Let_def)
  next
    case (Inr admitted)
    show ?thesis
    proof (cases "admitted = []")
      case True
      then have f: "fallback_in_store E h refs (strip education) (strip skills) (strip location)
                      (clamp_top_k top_k) = (h', r)"
        using assms ne Inr by (simp add: recommend_in_store_def Let_def)
      have p: "recommend E ?ps education skills location top_k
                 = semantic_fallback_recommendation E ?ps (strip education) (strip skills)
                     (strip location) (clamp_top_k top_k)"
        using ne Inr True by (simp add: recommend_def Let_def)
      show ?thesis using fallback_in_store_spec[OF f] p by simp
    next
      case False
      show ?thesis
      proof (cases "rank_admitted E admitted (strip education) (strip skills) (strip location)
                      (clamp_top_k top_k)")
        case (Inl e)
        then have "h' = h" "r = Inl e"
          using assms ne Inr False by (simp_all add: recommend_in_store_def Let_def)
        moreover have "recommend E ?ps education skills location top_k = Inl e"
          using ne Inr False Inl by (simp add: recommend_def Let_def)
        ultimately show ?thesis by simp
      next
        case items: (Inr items)
        then have b: "build_results h refs items [] = (h', r)"
          using assms ne Inr False by (simp add: recommend_in_store_def Let_def)
        have ok: "\<forall>item \<in> set items. posting_at h refs (origin item) = PDict (internship item)"
        proof
          fix item assume m: "item \<in> set items"
          from ranked_items_in_catalogue[OF Inr items m] have "origin item < length ?ps"
            "?ps ! origin item = PDict (internship item)" by simp_all
          then show "posting_at h refs (origin item) = PDict (internship item)"
            by (auto simp: posting_at_def)
        qed
        have p: "recommend E ?ps education skills location top_k = Inr (map make_result items)"
          using ne Inr False items by (simp add: recommend_def Let_def)
        from store_run[OF ok b] p show ?thesis by (auto simp: dget_make_result)
      qed
    qed
  qed
qed


text \<open>
  Claim C10. For \<open>recommend\<close> and for \<open>semantic_fallback_recommendation\<close>, run on a store \<open>h\<close>
  and a catalogue of addresses: the store after the call begins with \<open>h\<close>, so every
  dictionary of the input is what it was (it keeps its \<open>embedding\<close> and gains no key); the
  results are at addresses beyond \<open>h\<close>, so they are new dictionaries; and they hold what the
  ranking on values returns, with \<open>score\<close> and \<open>match_details\<close> set and no \<open>embedding\<close>. An
  exception leaves the store as it was as well. The list of addresses is a value: no
  statement of the two functions assigns into the input list or appends to it.
\<close>

theorem inputs_unchanged:
  "(recommend_in_store E h refs education skills location top_k = (h', r) \<longrightarrow>
      take (length h) h' = h \<and>
      (\<forall>a < length h. deref h' a = deref h a) \<and>
      (\<forall>e. r = Inl e \<longrightarrow>
         recommend E (map (deref h) refs) education skills location top_k = Inl e) \<and>
      (\<forall>results. r = Inr results \<longrightarrow>
         (\<forall>a \<in> set results. length h \<le> a \<and> a < length h') \<and>
         (\<exists>rs. recommend E (map (deref h) refs) education skills location top_k = Inr rs \<and>
               map (deref h') results = map PDict rs \<and>
               (\<forall>d \<in> set rs.
                  dget d ''embedding'' = None \<and>
                  (\<exists>s. dget d ''score'' = Some (PFloat s)) \<and>
                  (\<exists>m. dget d ''match_details'' = Some (PDict m)))))) \<and>
   (fallback_in_store E h refs education skills location k = (h2, r2) \<longrightarrow>
      take (length h) h2 = h \<and>
      (\<forall>a < length h. deref h2 a = deref h a) \<and>
      (\<forall>e. r2 = Inl e \<longrightarrow>
         semantic_fallback_recommendation E (map (deref h) refs) education skills location k = Inl e) \<and>
      (\<forall>results. r2 = Inr results \<longrightarrow>
         (\<forall>a \<in> set results. length h \<le> a \<and> a < length h2) \<and>
         (\<exists>rs. semantic_fallback_recommendation E (map (deref h) refs) education skills location k
                  = Inr rs \<and>
               map (deref h2) results = map PDict rs \<and>
               (\<forall>d \<in> set rs.
                  dget d ''embedding'' = None \<and>
                  (\<exists>s. dget d ''score'' = Some (PFloat s)) \<and>
                  (\<exists>m. dget d ''match_details'' = Some (PDict m))))))"
proof (rule conjI; rule impI)
  assume a: "recommend_in_store E h refs education skills location top_k = (h', r)"
  note s = recommend_in_store_spec[OF a]
  from s have t: "take (length h) h' = h" by (rule conjunct1)
  have f: "\<forall>a < length h. deref h' a = deref h a" using frame_deref[OF t] by simp
  show "take (length h) h' = h \<and>
      (\<forall>a < length h. deref h' a = deref h a) \<and>
      (\<forall>e. r = Inl e \<longrightarrow>
         recommend E (map (deref h) refs) education skills location top_k = Inl e) \<and>
      (\<forall>results. r = Inr results \<longrightarrow>
         (\<forall>a \<in> set results. length h \<le> a \<and> a < length h') \<and>
         (\<exists>rs. recommend E (map (deref h) refs) education skills location top_k = Inr rs \<and>
               map (deref h') results = map PDict rs \<and>
               (\<forall>d \<in> set rs.
                  dget d ''embedding'' = None \<and>
                  (\<exists>s. dget d ''score'' = Some (PFloat s)) \<and>
                  (\<exists>m. dget d ''match_details'' = Some (PDict m)))))"
    by (intro conjI, rule t, rule f, rule conjunct1[OF conjunct2[OF s]],
        rule conjunct2[OF conjunct2[OF s]])
next
  assume a: "fallback_in_store E h refs education skills location k = (h2, r2)"
  note s = fallback_in_store_spec[OF a]
  from s have t: "take (length h) h2 = h" by (rule conjunct1)
  have f: "\<forall>a < length h. deref h2 a = deref h a" using frame_deref[OF t] by simp
  show "take (length h) h2 = h \<and>
      (\<forall>a < length h. deref h2 a = deref h a) \<and>
      (\<forall>e. r2 = Inl e \<longrightarrow>
         semantic_fallback_recommendation E (map (deref h) refs) education skills location k = Inl e) \<and>
      (\<forall>results. r2 = Inr results \<longrightarrow>
         (\<forall>a \<in> set results. length h \<le> a \<and> a < length h2) \<and>
         (\<exists>rs. semantic_fallback_recommendation E (map (deref h) refs) education skills location k
                  = Inr rs \<and>
               map (deref h2) results = map PDict rs \<and>
               (\<forall>d \<in> set rs.
                  dget d ''embedding'' = None \<and>
                  (\<exists>s. dget d ''score'' = Some (PFloat s)) \<and>
                  (\<exists>m. dget d ''match_details'' = Some (PDict m)))))"
    by (intro conjI, rule t, rule f, rule conjunct1[OF conjunct2[OF s]],
        rule conjunct2[OF conjunct2[OF s]])
qed

text \<open>
  The theorem on a store of three postings: the primary path (two admitted postings) and
  the fallback (two survivors) each return the new addresses 3 and 4, and the first three
  objects of the store are the three postings, unchanged.
\<close>

theorem inputs_unchanged_witness:
  "snd (recommend_in_store sample_env sample_store [0, 1, 2] ''BSc'' ''java'' ''Pune'' 5) = Inr [3, 4]
   \<and> take 3 (fst (recommend_in_store sample_env sample_store [0, 1, 2] ''BSc'' ''java'' ''Pune'' 5))
       = sample_store
   \<and> snd (fallback_in_store graded_env sample_store [0, 1, 2] [] ''react'' [] 3) = Inr [3, 4]
   \<and> take 3 (fst (fallback_in_store graded_env sample_store [0, 1, 2] [] ''react'' [] 3))
       = sample_store"
proof -
  obtain h' r where a: "recommend_in_store sample_env sample_store [0, 1, 2] ''BSc'' ''java'' ''Pune'' 5 = (h', r)"
    by (cases "recommend_in_store sample_env sample_store [0, 1, 2] ''BSc'' ''java'' ''Pune'' 5")
  obtain h2 r2 where b: "fallback_in_store graded_env sample_store [0, 1, 2] [] ''react'' [] 3 = (h2, r2)"
    by (cases "fallback_in_store graded_env sample_store [0, 1, 2] [] ''react'' [] 3")
  have l: "length sample_store = 3" by (simp add: sample_store_def)
  have ra: "snd (recommend_in_store sample_env sample_store [0, 1, 2] ''BSc'' ''java'' ''Pune'' 5) = Inr [3, 4]"
    by code_simp
  have rb: "snd (fallback_in_store graded_env sample_store [0, 1, 2] [] ''react'' [] 3) = Inr [3, 4]"
    by code_simp
  from inputs_unchanged[of sample_env sample_store "[0, 1, 2]" "''BSc''" "''java''" "''Pune''" 5 h' r] a
  have "take (length sample_store) h' = sample_store" by blast
  then have ta: "take 3 h' = sample_store" unfolding l .
  from inputs_unchanged[of graded_env sample_store "[0, 1, 2]" "[]" "''react''" "[]" _ _ _ 3 h2 r2] b
  have "take (length sample_store) h2 = sample_store" by blast
  then have tb: "take 3 h2 = sample_store" unfolding l .
  have fa: "take 3 (fst (recommend_in_store sample_env sample_store [0, 1, 2] ''BSc'' ''java'' ''Pune'' 5))
              = sample_store"
    unfolding a fst_conv by (rule ta)
  have fb: "take 3 (fst (fallback_in_store graded_env sample_store [0, 1, 2] [] ''react'' [] 3))
              = sample_store"
    unfolding b fst_conv by (rule tb)
  show ?thesis by (intro conjI, rule ra, rule fa, rule rb, rule fb)
qed

end
